theory Spec2Isabelle
  imports Complex_Main "HOL-Library.AList"
begin

section \<open>Strings of the host language\<close>

text \<open>
  A JavaScript string is a sequence of UTF-16 code units; a code unit is modelled by its
  number. \<open>str\<close> turns an ASCII literal into such a sequence, so that the
  preset search term with an accented o (U+00F3) is \<open>str ''coraz'' @ [243] @ str ''n''\<close>.
\<close>

type_synonym jsstring = "nat list"

definition str :: "string \<Rightarrow> jsstring" where
  "str = map of_char"

text \<open>
  White space as \<open>String.prototype.trim\<close> and the regular-expression class \<open>\s\<close> both
  understand it: TAB, LF, VT, FF, CR, SP, NBSP, U+1680, U+2000..U+200A, U+2028, U+2029,
  U+202F, U+205F, U+3000 and U+FEFF.
\<close>

definition is_ws :: "nat \<Rightarrow> bool" where
  "is_ws c \<longleftrightarrow>
     c \<in> {9, 10, 11, 12, 13, 32, 160, 5760, 8232, 8233, 8239, 8287, 12288, 65279}
     \<or> (8192 \<le> c \<and> c \<le> 8202)"

definition trim :: "jsstring \<Rightarrow> jsstring" where
  "trim s = rev (dropWhile is_ws (rev (dropWhile is_ws s)))"

definition startsWith :: "jsstring \<Rightarrow> jsstring \<Rightarrow> bool" where
  "startsWith s p \<longleftrightarrow> take (length p) s = p"

text \<open>\<open>s.includes(sub)\<close>: \<open>sub\<close> occurs in \<open>s\<close> as a contiguous block.\<close>

fun js_includes :: "jsstring \<Rightarrow> jsstring \<Rightarrow> bool" where
  "js_includes [] sub = (sub = [])"
| "js_includes (c # cs) sub = (startsWith (c # cs) sub \<or> js_includes cs sub)"

text \<open>A non-negative integer in a template literal: its decimal digits.\<close>

fun show_nat :: "nat \<Rightarrow> jsstring" where
  "show_nat n = (if n < 10 then [48 + n] else show_nat (n div 10) @ [48 + n mod 10])"

declare show_nat.simps [simp del]

section \<open>Values, exceptions and the host\<close>

text \<open>
  The values \<open>JSON.parse\<close> and \<open>response.json()\<close> can return, plus \<open>undefined\<close>, the
  result of reading a property that is not there. A number is modelled by its value
  (it is falsy exactly when it is zero; \<open>JSON.parse\<close> never yields NaN). An object is
  the list of its own properties, read through \<open>map_of\<close>.
\<close>

datatype jsval =
    JUndefined
  | JNull
  | JBool bool
  | JNum rat
  | JStr jsstring
  | JArr "jsval list"
  | JObj "(jsstring \<times> jsval) list"

datatype exn = Exn (exn_name: jsstring) (exn_message: jsstring)

text \<open>
  What the program takes from its host: \<open>JSON.parse\<close> (\<open>Inl m\<close> when it throws a
  SyntaxError with message \<open>m\<close>), \<open>String.prototype.toLowerCase\<close>, the message of
  the TypeError the engine raises (a run of the program raises at most one), and the
  message of the Error that React throws when an object is placed as a child.
\<close>

record host =
  JSON_parse :: "jsstring \<Rightarrow> jsstring + jsval"
  toLowerCase :: "jsstring \<Rightarrow> jsstring"
  typeErrorMessage :: jsstring
  childErrorMessage :: jsstring

definition TypeError :: "host \<Rightarrow> exn" where
  "TypeError h = Exn (str ''TypeError'') (typeErrorMessage h)"


text \<open>Sequencing of steps that may throw: the first exception ends the sequence.\<close>

definition bind_exn :: "exn + 'a \<Rightarrow> ('a \<Rightarrow> exn + 'b) \<Rightarrow> exn + 'b" where
  "bind_exn m f = (case m of Inl e \<Rightarrow> Inl e | Inr x \<Rightarrow> f x)"

fun truthy :: "jsval \<Rightarrow> bool" where
  "truthy JUndefined = False"
| "truthy JNull = False"
| "truthy (JBool b) = b"
| "truthy (JNum n) = (n \<noteq> 0)"
| "truthy (JStr s) = (s \<noteq> [])"
| "truthy (JArr xs) = True"
| "truthy (JObj kvs) = True"

text \<open>The operator \<open>a || b\<close>.\<close>

definition or_js :: "jsval \<Rightarrow> jsval \<Rightarrow> jsval" where
  "or_js a b = (if truthy a then a else b)"

text \<open>
  \<open>v.k\<close> for a key \<open>k\<close> that no prototype defines and that is not an index or
  \<open>length\<close>, which holds of every key the program reads this way (\<open>choices\<close>,
  \<open>message\<close>, \<open>content\<close>, the field names of the analysis, \<open>spanish\<close>, \<open>english\<close>):
  reading from \<open>undefined\<close> or \<open>null\<close> throws a TypeError, an object gives its own
  property or \<open>undefined\<close>, every other value gives \<open>undefined\<close>.
\<close>

fun get_named :: "host \<Rightarrow> jsval \<Rightarrow> jsstring \<Rightarrow> exn + jsval" where
  "get_named h JUndefined k = Inl (TypeError h)"
| "get_named h JNull k = Inl (TypeError h)"
| "get_named h (JObj kvs) k = Inr (case map_of kvs k of None \<Rightarrow> JUndefined | Some v \<Rightarrow> v)"
| "get_named h v k = Inr JUndefined"

text \<open>\<open>v[0]\<close>.\<close>

fun get_index0 :: "host \<Rightarrow> jsval \<Rightarrow> exn + jsval" where
  "get_index0 h JUndefined = Inl (TypeError h)"
| "get_index0 h JNull = Inl (TypeError h)"
| "get_index0 h (JArr xs) = Inr (case xs of [] \<Rightarrow> JUndefined | x # _ \<Rightarrow> x)"
| "get_index0 h (JStr s) = Inr (case s of [] \<Rightarrow> JUndefined | c # _ \<Rightarrow> JStr [c])"
| "get_index0 h (JObj kvs) = Inr (case map_of kvs (str ''0'') of None \<Rightarrow> JUndefined | Some v \<Rightarrow> v)"
| "get_index0 h v = Inr JUndefined"

text \<open>
  The own enumerable properties that the spread \<open>{...v}\<close> copies: those of an object,
  the elements of an array and the characters of a string under their indices, nothing
  for any other value.
\<close>

fun spread :: "jsval \<Rightarrow> (jsstring \<times> jsval) list" where
  "spread (JObj kvs) = kvs"
| "spread (JArr xs) = zip (map show_nat [0..<length xs]) xs"
| "spread (JStr s) = zip (map show_nat [0..<length s]) (map (\<lambda>c. JStr [c]) s)"
| "spread v = []"

section \<open>The response normalizer\<close>

text \<open>
  \<open>aiResponse.replace(/```json\s*|\s*```/g, '')\<close>. The global replace scans from the
  left. At each position the first alternative is tried first: the text \<open>```json\<close>, then
  all the white space that follows. The second alternative is a run of white space and
  then \<open>```\<close>; the run is greedy, and giving part of it back only exposes white space
  where a backquote is needed, so it matches exactly when the whole run from this position
  is followed by \<open>```\<close>. A match is deleted and the scan goes on behind it (no match is
  empty); where neither alternative matches, the character is kept.
\<close>

definition fence :: jsstring where
  "fence = str ''```''"

definition fence_json :: jsstring where
  "fence_json = str ''```json''"

function replace_fences :: "jsstring \<Rightarrow> jsstring" where
  "replace_fences [] = []"
| "replace_fences (c # cs) =
     (if startsWith (c # cs) fence_json
      then replace_fences (dropWhile is_ws (drop 7 (c # cs)))
      else if startsWith (dropWhile is_ws (c # cs)) fence
      then replace_fences (drop 3 (dropWhile is_ws (c # cs)))
      else c # replace_fences cs)"
  by pat_completeness auto
termination
proof (relation "measure length")
  show "wf (measure (length :: jsstring \<Rightarrow> nat))" by simp
next
  fix c :: nat and cs :: jsstring
  have "length (dropWhile is_ws (drop 7 (c # cs))) \<le> length (drop 7 (c # cs))"
    by (rule length_dropWhile_le)
  then show "(dropWhile is_ws (drop 7 (c # cs)), c # cs) \<in> measure length"
    by simp
next
  fix c :: nat and cs :: jsstring
  have "length (dropWhile is_ws (c # cs)) \<le> length (c # cs)"
    by (rule length_dropWhile_le)
  then show "(drop 3 (dropWhile is_ws (c # cs)), c # cs) \<in> measure length"
    by simp
next
  fix c :: nat and cs :: jsstring
  show "(cs, c # cs) \<in> measure length" by simp
qed

declare replace_fences.simps(2) [simp del]

definition cleanedResponse :: "jsstring \<Rightarrow> jsstring" where
  "cleanedResponse aiResponse = trim (replace_fences aiResponse)"

text \<open>
  The object literal \<open>safeAnalysis\<close>: the spread of the parsed payload, then the five
  fields with a fallback, assigned in the order of the source. \<open>w\<close> is \<open>word.trim()\<close>.
\<close>

definition safeAnalysis :: "host \<Rightarrow> jsstring \<Rightarrow> jsval \<Rightarrow> exn + jsval" where
  "safeAnalysis h w parsedAnalysis =
     bind_exn (get_named h parsedAnalysis (str ''relatedEnglishWords'')) (\<lambda>rel.
     bind_exn (get_named h parsedAnalysis (str ''sampleSentences'')) (\<lambda>sen.
     bind_exn (get_named h parsedAnalysis (str ''confidence'')) (\<lambda>con.
     bind_exn (get_named h parsedAnalysis (str ''languageFamily'')) (\<lambda>fam.
     bind_exn (get_named h parsedAnalysis (str ''pronunciation'')) (\<lambda>pro.
       Inr (JObj
         (AList.update (str ''pronunciation'') (or_js pro (JStr w))
         (AList.update (str ''languageFamily'') (or_js fam (JStr (str ''Romance'')))
         (AList.update (str ''confidence'') (or_js con (JStr (str ''medium'')))
         (AList.update (str ''sampleSentences'') (or_js sen (JArr []))
         (AList.update (str ''relatedEnglishWords'') (or_js rel (JArr []))
         (spread parsedAnalysis))))))))))))"

text \<open>
  The normalizer as a whole, from the completion text to the analysis: clean, parse,
  fill in. A failing parse is the SyntaxError of the host.
\<close>

definition normalize :: "host \<Rightarrow> jsstring \<Rightarrow> jsstring \<Rightarrow> exn + jsval" where
  "normalize h w aiResponse =
     (case JSON_parse h (cleanedResponse aiResponse) of
        Inl m \<Rightarrow> Inl (Exn (str ''SyntaxError'') m)
      | Inr parsedAnalysis \<Rightarrow> safeAnalysis h w parsedAnalysis)"

section \<open>The analysis flow\<close>

record response =
  ok :: bool
  status :: nat
  statusText :: jsstring
  json :: "exn + jsval"

text \<open>
  What \<open>fetch\<close> answers: the promise rejects (no connection), or resolves to a response.
  \<open>json\<close> is what \<open>response.json()\<close> gives, \<open>Inl\<close> when it rejects.
\<close>

datatype fetch_result = Rejected exn | Resolved response

text \<open>
  The one request of a run: a POST to the completion endpoint whose prompt is the fixed
  template of the source with the trimmed word put in.
\<close>

record request =
  url :: jsstring
  model :: jsstring
  prompt_word :: jsstring
  temperature :: rat
  max_tokens :: nat

definition completion_request :: "jsstring \<Rightarrow> request" where
  "completion_request w =
     \<lparr>url = str ''https://api.openai.com/v1/chat/completions'', model = str ''gpt-4o'',
      prompt_word = w, temperature = 7 / 10, max_tokens = 2000\<rparr>"

record voice =
  lang :: jsstring
  name :: jsstring
  localService :: bool

text \<open>The component's state: the values held by \<open>useState\<close> that the logic reads or writes.\<close>

record app_state =
  word :: jsstring
  analysis :: "jsval option"
  loading :: bool
  error :: jsstring
  recentSearches :: "jsstring list"
  availableVoices :: "voice list"
  selectedVoice :: "voice option"

definition initial_state :: app_state where
  "initial_state =
     \<lparr>word = [], analysis = None, loading = False, error = [],
      recentSearches = [str ''biblioteca'', str ''ventana'', str ''coraz'' @ [243] @ str ''n''],
      availableVoices = [], selectedVoice = None\<rparr>"

text \<open>\<open>data.choices[0].message.content\<close>.\<close>

definition completion_content :: "host \<Rightarrow> jsval \<Rightarrow> exn + jsval" where
  "completion_content h data =
     bind_exn (get_named h data (str ''choices'')) (\<lambda>choices.
     bind_exn (get_index0 h choices) (\<lambda>choice.
     bind_exn (get_named h choice (str ''message'')) (\<lambda>msg.
       get_named h msg (str ''content''))))"

text \<open>
  The body of the \<open>try\<close> block up to \<open>safeAnalysis\<close>: \<open>Inl\<close> is the exception thrown.
  Only a string has a \<open>replace\<close> method, so any other content is a TypeError.
\<close>

definition attempt :: "host \<Rightarrow> fetch_result \<Rightarrow> jsstring \<Rightarrow> exn + jsval" where
  "attempt h fr w =
     (case fr of
        Rejected e \<Rightarrow> Inl e
      | Resolved r \<Rightarrow>
          if \<not> ok r
          then Inl (Exn (str ''Error'')
                 (str ''OpenAI API error: '' @ show_nat (status r) @ str '' '' @ statusText r))
          else bind_exn (json r) (\<lambda>data.
               bind_exn (completion_content h data) (\<lambda>aiResponse.
                 (case aiResponse of
                    JStr a \<Rightarrow> normalize h w a
                  | _ \<Rightarrow> Inl (TypeError h)))))"

text \<open>The \<open>catch\<close> block: the text put into \<open>error\<close>.\<close>

definition catch_message :: "exn \<Rightarrow> jsstring" where
  "catch_message err =
     (if js_includes (exn_message err) (str ''OpenAI API error'')
      then str ''API Error: '' @ exn_message err @ str ''. Please check your OpenAI API key.''
      else if exn_name err = str ''SyntaxError''
      then str ''Failed to parse analysis. Please try again.''
      else str ''Failed to analyze the word. Please try again.'')"

definition newSearches :: "jsstring \<Rightarrow> jsstring list \<Rightarrow> jsstring list" where
  "newSearches w recent = take 5 (w # filter (\<lambda>s. s \<noteq> w) recent)"

text \<open>
  \<open>analyzeWord\<close>, run to its end against the answer \<open>fr\<close> of \<open>fetch\<close>: the state it
  leaves and the requests it issued.
\<close>

definition analyzeWord :: "host \<Rightarrow> fetch_result \<Rightarrow> app_state \<Rightarrow> app_state \<times> request list" where
  "analyzeWord h fr s =
     (if trim (word s) = []
      then (s\<lparr>error := str ''Please enter a Spanish word''\<rparr>, [])
      else
        let s1 = s\<lparr>loading := True, error := [], analysis := None\<rparr>
        in ((case attempt h fr (trim (word s)) of
               Inr safe \<Rightarrow>
                 s1\<lparr>analysis := Some safe,
                    recentSearches := newSearches (trim (word s)) (recentSearches s),
                    loading := False\<rparr>
             | Inl err \<Rightarrow> s1\<lparr>error := catch_message err, loading := False\<rparr>),
            [completion_request (trim (word s))]))"

section \<open>The voice registry\<close>

text \<open>\<open>loadVoices\<close>, on the catalog that \<open>speechSynthesis.getVoices()\<close> returns.\<close>

definition spanishVoices :: "host \<Rightarrow> voice list \<Rightarrow> voice list" where
  "spanishVoices h voices =
     filter (\<lambda>voice. startsWith (lang voice) (str ''es'')
                     \<or> js_includes (toLowerCase h (name voice)) (str ''spanish'')) voices"

text \<open>\<open>a || b\<close> where each side is a voice or \<open>undefined\<close>; a voice is an object, so truthy.\<close>

definition or_voice :: "voice option \<Rightarrow> voice option \<Rightarrow> voice option" where
  "or_voice a b = (case a of Some v \<Rightarrow> Some v | None \<Rightarrow> b)"

definition preferredVoice :: "host \<Rightarrow> voice list \<Rightarrow> voice option" where
  "preferredVoice h spanish =
     or_voice
       (or_voice
          (find (\<lambda>voice. lang voice = str ''es-US''
                          \<and> js_includes (toLowerCase h (name voice)) (str ''google'')) spanish)
          (find (\<lambda>voice. lang voice = str ''es-US'') spanish))
       (case spanish of [] \<Rightarrow> None | voice # _ \<Rightarrow> Some voice)"

definition loadVoices :: "host \<Rightarrow> voice list \<Rightarrow> app_state \<Rightarrow> app_state" where
  "loadVoices h voices s =
     (let spanish = spanishVoices h voices;
          s1 = s\<lparr>availableVoices := spanish\<rparr>
      in case preferredVoice h spanish of
           Some voice \<Rightarrow> s1\<lparr>selectedVoice := Some voice\<rparr>
         | None \<Rightarrow> s1)"

section \<open>The render boundary\<close>









section \<open>A concrete host\<close>

text \<open>
  A host to run the definitions on: it lowers the ASCII capitals, and its parser knows the
  texts of the empty object and of \<open>null\<close>.
\<close>

definition ascii_lower :: "jsstring \<Rightarrow> jsstring" where
  "ascii_lower = map (\<lambda>c. if 65 \<le> c \<and> c \<le> 90 then c + 32 else c)"

definition example_parse :: "jsstring \<Rightarrow> jsstring + jsval" where
  "example_parse s =
     (if s = str ''{}'' then Inr (JObj [])
      else if s = str ''null'' then Inr JNull
      else Inl (str ''Unexpected token''))"

definition example_host :: host where
  "example_host =
     \<lparr>JSON_parse = example_parse, toLowerCase = ascii_lower,
      typeErrorMessage = str ''Cannot read properties'',
      childErrorMessage = str ''Objects are not valid as a React child''\<rparr>"

section \<open>Vocabulary of the specification\<close>

text \<open>
  The fields of the analysis record as the specification names them: the four it calls
  required, the five it gives a default, and the three confidence levels.
\<close>

definition required_fields :: "jsstring list" where
  "required_fields = [str ''word'', str ''englishMeaning'', str ''etymology'', str ''mnemonic'']"

definition optional_fields :: "jsstring list" where
  "optional_fields =
     [str ''relatedEnglishWords'', str ''sampleSentences'', str ''confidence'',
      str ''languageFamily'', str ''pronunciation'']"

definition confidence_levels :: "jsval list" where
  "confidence_levels = [JStr (str ''high''), JStr (str ''medium''), JStr (str ''low'')]"

text \<open>
  A completion text that is a payload wrapped in a markdown code fence: the opening
  marker, the language tag (empty or \<open>json\<close>), white space, the payload, white space,
  the closing marker.
\<close>

definition fenced :: "jsstring \<Rightarrow> jsstring \<Rightarrow> jsstring \<Rightarrow> jsstring \<Rightarrow> jsstring" where
  "fenced tag ws1 payload ws2 = fence @ tag @ ws1 @ payload @ ws2 @ fence"

text \<open>
  What the text of a JSON payload has in common at its ends: its first character that is
  not white space is neither a backquote nor the letter j (a JSON text begins with a
  brace, a bracket, a quote, a digit, a minus sign or one of t, f, n), and it does not end
  with a backquote.
\<close>

definition payload_shaped :: "jsstring \<Rightarrow> bool" where
  "payload_shaped payload \<longleftrightarrow>
     (case dropWhile is_ws payload of [] \<Rightarrow> True | c # _ \<Rightarrow> c \<noteq> 96 \<and> c \<noteq> 106)
     \<and> (payload = [] \<or> last payload \<noteq> 96)"

text \<open>The right half of \<open>trim\<close>: white space removed at the end only.\<close>

definition trimEnd :: "jsstring \<Rightarrow> jsstring" where
  "trimEnd s = rev (dropWhile is_ws (rev s))"

section \<open>Recent searches\<close>

lemma not_in_take_removeAll: "w \<notin> set (take n (removeAll w xs))"
  using set_take_subset [of n "removeAll w xs"] by auto

lemma newSearches_removeAll: "newSearches w recent = take 5 (w # removeAll w recent)"
proof -
  have "filter (\<lambda>s. s \<noteq> w) recent = removeAll w recent"
    by (induction recent) auto
  then show ?thesis by (simp add: newSearches_def)
qed

lemma newSearches_Cons: "newSearches w recent = w # take 4 (removeAll w recent)"
  by (simp add: newSearches_removeAll take_Cons')

text \<open>
  C4. The update of the recent searches puts the searched word at the front, removes
  every other occurrence of that exact string and keeps at most five entries: the result
  is the word followed by the first four entries of the old list without the word. It
  holds the word once, and it is distinct when the old list was. On the empty list the
  searches ventana, casa, ventana give ventana, casa.
\<close>

theorem newSearches_moves_to_front:
  "newSearches w recent = take 5 (w # removeAll w recent)
   \<and> hd (newSearches w recent) = w
   \<and> count_list (newSearches w recent) w = 1
   \<and> length (newSearches w recent) \<le> 5
   \<and> (distinct recent \<longrightarrow> distinct (newSearches w recent))
   \<and> newSearches (str ''ventana'') (newSearches (str ''casa'') (newSearches (str ''ventana'') []))
       = [str ''ventana'', str ''casa'']"
proof -
  have front: "newSearches w recent = w # take 4 (removeAll w recent)"
    by (rule newSearches_Cons)
  have once: "count_list (newSearches w recent) w = 1"
    using not_in_take_removeAll [of w 4 recent] by (simp add: front count_list_0_iff)
  have short: "length (newSearches w recent) \<le> 5"
    by (simp add: front)
  have dist: "distinct recent \<longrightarrow> distinct (newSearches w recent)"
    using not_in_take_removeAll [of w 4 recent]
    by (simp add: front distinct_removeAll)
  have example:
    "newSearches (str ''ventana'') (newSearches (str ''casa'') (newSearches (str ''ventana'') []))
       = [str ''ventana'', str ''casa'']"
    by (simp add: newSearches_def str_def)
  show ?thesis
    using front once short dist example by (simp add: newSearches_removeAll)
qed

theorem newSearches_moves_to_front_witness:
  "distinct [str ''biblioteca'', str ''ventana'', str ''casa'']
   \<and> newSearches (str ''ventana'') [str ''biblioteca'', str ''ventana'', str ''casa'']
       = [str ''ventana'', str ''biblioteca'', str ''casa'']
   \<and> distinct (newSearches (str ''ventana'') [str ''biblioteca'', str ''ventana'', str ''casa''])"
  using newSearches_moves_to_front
    [of "str ''ventana''" "[str ''biblioteca'', str ''ventana'', str ''casa'']"]
  by (simp add: str_def)

section \<open>The analysis flow: guard, failures, errors\<close>

lemma trim_Nil_iff: "trim s = [] \<longleftrightarrow> list_all is_ws s"
proof (cases "dropWhile is_ws s = []")
  case True
  then have "list_all is_ws s"
    by (simp add: list_all_iff dropWhile_eq_Nil_conv)
  moreover have "trim s = []"
    unfolding trim_def True by simp
  ultimately show ?thesis by simp
next
  case False
  then have "\<not> is_ws (hd (dropWhile is_ws s))"
    by (rule hd_dropWhile)
  moreover have "hd (dropWhile is_ws s) \<in> set (dropWhile is_ws s)"
    using False by simp
  ultimately have "dropWhile is_ws (rev (dropWhile is_ws s)) \<noteq> []"
    by (auto simp: dropWhile_eq_Nil_conv)
  moreover have "\<not> list_all is_ws s"
    using False by (auto simp: list_all_iff dropWhile_eq_Nil_conv)
  ultimately show ?thesis
    by (simp add: trim_def)
qed

lemma js_includes_Nil: "js_includes s []"
  by (induction s) (simp_all add: startsWith_def)

lemma js_includes_prefix: "js_includes (p @ x) p"
  by (cases p) (simp_all add: js_includes_Nil startsWith_def)

lemma catch_message_api:
  "catch_message (Exn n (str ''OpenAI API error: '' @ x))
     = str ''API Error: OpenAI API error: '' @ x @ str ''. Please check your OpenAI API key.''"
proof -
  have "js_includes (str ''OpenAI API error'' @ (str '': '' @ x)) (str ''OpenAI API error'')"
    by (rule js_includes_prefix)
  moreover have "str ''OpenAI API error'' @ (str '': '' @ x) = str ''OpenAI API error: '' @ x"
    by (simp add: str_def)
  ultimately have "js_includes (str ''OpenAI API error: '' @ x) (str ''OpenAI API error'')"
    by simp
  then show ?thesis
    by (simp add: catch_message_def str_def)
qed

lemma analyzeWord_failure:
  assumes "trim (word s) \<noteq> []" and "attempt h fr (trim (word s)) = Inl e"
  shows "fst (analyzeWord h fr s)
           = s\<lparr>loading := False, error := catch_message e, analysis := None\<rparr>"
  using assms by (simp add: analyzeWord_def Let_def)

lemma analyzeWord_success:
  assumes "trim (word s) \<noteq> []" and "attempt h fr (trim (word s)) = Inr safe"
  shows "fst (analyzeWord h fr s)
           = s\<lparr>loading := False, error := [], analysis := Some safe,
               recentSearches := newSearches (trim (word s)) (recentSearches s)\<rparr>"
  using assms by (simp add: analyzeWord_def Let_def)

lemma attempt_not_ok:
  "\<not> ok r \<Longrightarrow> attempt h (Resolved r) w
     = Inl (Exn (str ''Error'')
         (str ''OpenAI API error: '' @ show_nat (status r) @ str '' '' @ statusText r))"
  by (simp add: attempt_def)

text \<open>
  C10. The list of recent searches is not empty at the start of a page session: it holds
  biblioteca, ventana and the word with the accented o. A first search therefore puts
  its word in front of these, without the word itself; from the start, the searches
  ventana, casa, ventana leave ventana, casa, biblioteca and the accented word.
\<close>

theorem recentSearches_preloaded:
  "recentSearches initial_state
     = [str ''biblioteca'', str ''ventana'', str ''coraz'' @ [243] @ str ''n'']
   \<and> newSearches w (recentSearches initial_state)
     = w # removeAll w [str ''biblioteca'', str ''ventana'', str ''coraz'' @ [243] @ str ''n'']
   \<and> newSearches (str ''ventana'')
       (newSearches (str ''casa'') (newSearches (str ''ventana'') (recentSearches initial_state)))
     = [str ''ventana'', str ''casa'', str ''biblioteca'', str ''coraz'' @ [243] @ str ''n'']"
proof -
  have preset: "recentSearches initial_state
     = [str ''biblioteca'', str ''ventana'', str ''coraz'' @ [243] @ str ''n'']"
    by (simp add: initial_state_def)
  have "length (removeAll w (recentSearches initial_state)) \<le> 3"
    using length_removeAll_less_eq [of w "recentSearches initial_state"]
    by (simp add: initial_state_def)
  then have first: "newSearches w (recentSearches initial_state)
     = w # removeAll w (recentSearches initial_state)"
    by (simp add: newSearches_Cons)
  have thrice: "newSearches (str ''ventana'')
       (newSearches (str ''casa'') (newSearches (str ''ventana'') (recentSearches initial_state)))
     = [str ''ventana'', str ''casa'', str ''biblioteca'', str ''coraz'' @ [243] @ str ''n'']"
    by (simp add: preset newSearches_def str_def)
  show ?thesis
    using preset first thrice by simp
qed

text \<open>
  C6. When the search term is empty or holds white space only, \<open>analyzeWord\<close> issues no
  request and only sets the input error; the rest of the state stays. For every other
  term it issues exactly one request, for the trimmed term, which is not empty.
\<close>

theorem analyzeWord_input_guard:
  "(list_all is_ws (word s) \<longrightarrow>
      analyzeWord h fr s = (s\<lparr>error := str ''Please enter a Spanish word''\<rparr>, []))
   \<and> (\<not> list_all is_ws (word s) \<longrightarrow>
      snd (analyzeWord h fr s) = [completion_request (trim (word s))]
      \<and> prompt_word (completion_request (trim (word s))) = trim (word s)
      \<and> trim (word s) \<noteq> [])"
  by (simp add: analyzeWord_def Let_def trim_Nil_iff completion_request_def)

theorem analyzeWord_input_guard_witness:
  "list_all is_ws (word (initial_state\<lparr>word := [32, 9, 10]\<rparr>))
   \<and> analyzeWord example_host (Rejected (Exn [] [])) (initial_state\<lparr>word := [32, 9, 10]\<rparr>)
       = (initial_state\<lparr>word := [32, 9, 10], error := str ''Please enter a Spanish word''\<rparr>, [])
   \<and> \<not> list_all is_ws (word (initial_state\<lparr>word := str '' casa ''\<rparr>))
   \<and> snd (analyzeWord example_host (Rejected (Exn [] [])) (initial_state\<lparr>word := str '' casa ''\<rparr>))
       = [completion_request (str ''casa'')]"
  using analyzeWord_input_guard
      [of "initial_state\<lparr>word := [32, 9, 10]\<rparr>" example_host "Rejected (Exn [] [])"]
    analyzeWord_input_guard
      [of "initial_state\<lparr>word := str '' casa ''\<rparr>" example_host "Rejected (Exn [] [])"]
  by (simp add: is_ws_def str_def trim_def)


text \<open>
  C9. A failing attempt leaves the recent searches as they were, whatever fails: the
  input guard, a rejected \<open>fetch\<close>, a response that is not ok, a body or a completion
  of the wrong shape, a completion text that does not parse, or a parsed payload that
  cannot be normalized. The list changes only when the attempt returned the normalized
  analysis, which is then the stored result; and then it is the updated list.
\<close>

theorem failed_attempt_keeps_recentSearches:
  "((trim (word s) = [] \<or> (\<exists>e. attempt h fr (trim (word s)) = Inl e)) \<longrightarrow>
      recentSearches (fst (analyzeWord h fr s)) = recentSearches s)
   \<and> (recentSearches (fst (analyzeWord h fr s)) \<noteq> recentSearches s \<longrightarrow>
      (\<exists>safe. attempt h fr (trim (word s)) = Inr safe
         \<and> analysis (fst (analyzeWord h fr s)) = Some safe))
   \<and> (\<forall>safe. trim (word s) \<noteq> [] \<and> attempt h fr (trim (word s)) = Inr safe \<longrightarrow>
      recentSearches (fst (analyzeWord h fr s))
        = newSearches (trim (word s)) (recentSearches s))
   \<and> (\<forall>e. attempt h (Rejected e) (trim (word s)) = Inl e)
   \<and> (\<forall>r. \<not> ok r \<longrightarrow> (\<exists>e. attempt h (Resolved r) (trim (word s)) = Inl e))
   \<and> (\<forall>a m. JSON_parse h (cleanedResponse a) = Inl m \<longrightarrow>
        normalize h (trim (word s)) a = Inl (Exn (str ''SyntaxError'') m))
   \<and> (\<forall>a. JSON_parse h (cleanedResponse a) = Inr JNull \<longrightarrow>
        normalize h (trim (word s)) a = Inl (TypeError h))"
proof -
  have fails: "recentSearches (fst (analyzeWord h fr s)) = recentSearches s"
    if "trim (word s) = [] \<or> (\<exists>e. attempt h fr (trim (word s)) = Inl e)"
    using that by (auto simp: analyzeWord_def Let_def)
  have changed: "\<exists>safe. attempt h fr (trim (word s)) = Inr safe
         \<and> analysis (fst (analyzeWord h fr s)) = Some safe"
    if "recentSearches (fst (analyzeWord h fr s)) \<noteq> recentSearches s"
  proof (cases "attempt h fr (trim (word s))")
    case (Inl e)
    with fails that show ?thesis by blast
  next
    case (Inr safe)
    from that fails have "trim (word s) \<noteq> []" by blast
    with Inr show ?thesis by (simp add: analyzeWord_success)
  qed
  have succeeds: "recentSearches (fst (analyzeWord h fr s))
        = newSearches (trim (word s)) (recentSearches s)"
    if "trim (word s) \<noteq> [] \<and> attempt h fr (trim (word s)) = Inr safe" for safe
    using that by (simp add: analyzeWord_success)
  have rejected: "attempt h (Rejected e) (trim (word s)) = Inl e" for e
    by (simp add: attempt_def)
  have not_ok: "\<exists>e. attempt h (Resolved r) (trim (word s)) = Inl e" if "\<not> ok r" for r
    using that by (simp add: attempt_not_ok)
  have no_parse: "normalize h (trim (word s)) a = Inl (Exn (str ''SyntaxError'') m)"
    if "JSON_parse h (cleanedResponse a) = Inl m" for a m
    using that by (simp add: normalize_def)
  have null: "normalize h (trim (word s)) a = Inl (TypeError h)"
    if "JSON_parse h (cleanedResponse a) = Inr JNull" for a
    using that by (simp add: normalize_def safeAnalysis_def bind_exn_def)
  show ?thesis
    using fails changed succeeds rejected not_ok no_parse null by blast
qed

theorem failed_attempt_keeps_recentSearches_witness:
  "trim (word (initial_state\<lparr>word := str ''casa''\<rparr>)) \<noteq> []
   \<and> attempt example_host
        (Resolved \<lparr>ok = False, status = 401, statusText = str ''Unauthorized'', json = Inr JNull\<rparr>)
        (trim (word (initial_state\<lparr>word := str ''casa''\<rparr>)))
       = Inl (Exn (str ''Error'') (str ''OpenAI API error: 401 Unauthorized''))
   \<and> recentSearches (fst (analyzeWord example_host
        (Resolved \<lparr>ok = False, status = 401, statusText = str ''Unauthorized'', json = Inr JNull\<rparr>)
        (initial_state\<lparr>word := str ''casa''\<rparr>)))
       = recentSearches initial_state"
proof -
  have run: "attempt example_host
        (Resolved \<lparr>ok = False, status = 401, statusText = str ''Unauthorized'', json = Inr JNull\<rparr>)
        (trim (word (initial_state\<lparr>word := str ''casa''\<rparr>)))
       = Inl (Exn (str ''Error'') (str ''OpenAI API error: 401 Unauthorized''))"
    by (simp add: attempt_def show_nat.simps str_def)
  have "trim (word (initial_state\<lparr>word := str ''casa''\<rparr>)) \<noteq> []"
    by (simp add: trim_def str_def is_ws_def)
  then show ?thesis
    using run failed_attempt_keeps_recentSearches
      [of "initial_state\<lparr>word := str ''casa''\<rparr>" example_host
          "Resolved \<lparr>ok = False, status = 401, statusText = str ''Unauthorized'', json = Inr JNull\<rparr>"]
    by simp
qed


text \<open>
  C7 as the code has it. A response that is not ok makes the attempt throw an error whose
  message holds the status code and the status text; the flow shows it as an API error
  with that message, a text different from the one shown for a completion that does not
  parse (the parse text is shown when the parser's message does not itself contain
  \<open>OpenAI API error\<close>). A rejected \<open>fetch\<close>, the network failure, carries no status:
  unless its message contains \<open>OpenAI API error\<close> or its name is SyntaxError, the flow
  shows the general failure text.
\<close>

theorem upstream_error_reported:
  "trim (word s) \<noteq> [] \<longrightarrow>
     (\<forall>r. \<not> ok r \<longrightarrow>
        attempt h (Resolved r) (trim (word s))
          = Inl (Exn (str ''Error'')
              (str ''OpenAI API error: '' @ show_nat (status r) @ str '' '' @ statusText r))
        \<and> error (fst (analyzeWord h (Resolved r) s))
          = str ''API Error: OpenAI API error: '' @ show_nat (status r) @ str '' '' @ statusText r
              @ str ''. Please check your OpenAI API key.''
        \<and> error (fst (analyzeWord h (Resolved r) s))
          \<noteq> str ''Failed to parse analysis. Please try again.'')
     \<and> (\<forall>r data a m.
          ok r \<and> json r = Inr data \<and> completion_content h data = Inr (JStr a)
          \<and> JSON_parse h (cleanedResponse a) = Inl m
          \<and> \<not> js_includes m (str ''OpenAI API error'') \<longrightarrow>
          error (fst (analyzeWord h (Resolved r) s))
            = str ''Failed to parse analysis. Please try again.'')
     \<and> (\<forall>e. \<not> js_includes (exn_message e) (str ''OpenAI API error'')
            \<and> exn_name e \<noteq> str ''SyntaxError'' \<longrightarrow>
          error (fst (analyzeWord h (Rejected e) s))
            = str ''Failed to analyze the word. Please try again.'')"
proof
  assume w: "trim (word s) \<noteq> []"
  have upstream:
    "attempt h (Resolved r) (trim (word s))
          = Inl (Exn (str ''Error'')
              (str ''OpenAI API error: '' @ show_nat (status r) @ str '' '' @ statusText r))
        \<and> error (fst (analyzeWord h (Resolved r) s))
          = str ''API Error: OpenAI API error: '' @ show_nat (status r) @ str '' '' @ statusText r
              @ str ''. Please check your OpenAI API key.''
        \<and> error (fst (analyzeWord h (Resolved r) s))
          \<noteq> str ''Failed to parse analysis. Please try again.''"
    if "\<not> ok r" for r
  proof -
    have a: "attempt h (Resolved r) (trim (word s))
          = Inl (Exn (str ''Error'')
              (str ''OpenAI API error: '' @ show_nat (status r) @ str '' '' @ statusText r))"
      using that by (rule attempt_not_ok)
    have shown: "error (fst (analyzeWord h (Resolved r) s))
          = str ''API Error: OpenAI API error: '' @ show_nat (status r) @ str '' '' @ statusText r
              @ str ''. Please check your OpenAI API key.''"
      by (simp add: analyzeWord_failure [OF w a] catch_message_api)
    have "str ''API Error: OpenAI API error: '' @ show_nat (status r) @ str '' '' @ statusText r
              @ str ''. Please check your OpenAI API key.''
          \<noteq> str ''Failed to parse analysis. Please try again.''"
      by (simp add: str_def)
    with a shown show ?thesis by simp
  qed
  have parse: "error (fst (analyzeWord h (Resolved r) s))
            = str ''Failed to parse analysis. Please try again.''"
    if "ok r \<and> json r = Inr data \<and> completion_content h data = Inr (JStr a)
          \<and> JSON_parse h (cleanedResponse a) = Inl m
          \<and> \<not> js_includes m (str ''OpenAI API error'')" for r data a m
  proof -
    have a: "attempt h (Resolved r) (trim (word s)) = Inl (Exn (str ''SyntaxError'') m)"
      using that by (simp add: attempt_def bind_exn_def normalize_def)
    show ?thesis
      using that by (simp add: analyzeWord_failure [OF w a] catch_message_def)
  qed
  have network: "error (fst (analyzeWord h (Rejected e) s))
            = str ''Failed to analyze the word. Please try again.''"
    if "\<not> js_includes (exn_message e) (str ''OpenAI API error'')
            \<and> exn_name e \<noteq> str ''SyntaxError''" for e
  proof -
    have a: "attempt h (Rejected e) (trim (word s)) = Inl e"
      by (simp add: attempt_def)
    show ?thesis
      using that by (simp add: analyzeWord_failure [OF w a] catch_message_def)
  qed
  show "(\<forall>r. \<not> ok r \<longrightarrow>
        attempt h (Resolved r) (trim (word s))
          = Inl (Exn (str ''Error'')
              (str ''OpenAI API error: '' @ show_nat (status r) @ str '' '' @ statusText r))
        \<and> error (fst (analyzeWord h (Resolved r) s))
          = str ''API Error: OpenAI API error: '' @ show_nat (status r) @ str '' '' @ statusText r
              @ str ''. Please check your OpenAI API key.''
        \<and> error (fst (analyzeWord h (Resolved r) s))
          \<noteq> str ''Failed to parse analysis. Please try again.'')
     \<and> (\<forall>r data a m.
          ok r \<and> json r = Inr data \<and> completion_content h data = Inr (JStr a)
          \<and> JSON_parse h (cleanedResponse a) = Inl m
          \<and> \<not> js_includes m (str ''OpenAI API error'') \<longrightarrow>
          error (fst (analyzeWord h (Resolved r) s))
            = str ''Failed to parse analysis. Please try again.'')
     \<and> (\<forall>e. \<not> js_includes (exn_message e) (str ''OpenAI API error'')
            \<and> exn_name e \<noteq> str ''SyntaxError'' \<longrightarrow>
          error (fst (analyzeWord h (Rejected e) s))
            = str ''Failed to analyze the word. Please try again.'')"
    using upstream parse network by blast
qed

theorem upstream_error_reported_witness:
  "trim (word (initial_state\<lparr>word := str ''casa''\<rparr>)) \<noteq> []
   \<and> error (fst (analyzeWord example_host
        (Resolved \<lparr>ok = False, status = 401, statusText = str ''Unauthorized'', json = Inr JNull\<rparr>)
        (initial_state\<lparr>word := str ''casa''\<rparr>)))
       = str ''API Error: OpenAI API error: 401 Unauthorized. Please check your OpenAI API key.''
   \<and> error (fst (analyzeWord example_host
        (Resolved \<lparr>ok = True, status = 200, statusText = str ''OK'',
           json = Inr (JObj [(str ''choices'',
             JArr [JObj [(str ''message'', JObj [(str ''content'', JStr (str ''no json''))])]])])\<rparr>)
        (initial_state\<lparr>word := str ''casa''\<rparr>)))
       = str ''Failed to parse analysis. Please try again.''
   \<and> error (fst (analyzeWord example_host
        (Rejected (Exn (str ''AbortError'') (str ''The operation was aborted'')))
        (initial_state\<lparr>word := str ''casa''\<rparr>)))
       = str ''Failed to analyze the word. Please try again.''"
proof -
  let ?s = "initial_state\<lparr>word := str ''casa''\<rparr>"
  let ?data = "JObj [(str ''choices'',
             JArr [JObj [(str ''message'', JObj [(str ''content'', JStr (str ''no json''))])]])]"
  have w: "trim (word ?s) \<noteq> []"
    by (simp add: trim_def str_def is_ws_def)
  have digits: "show_nat 401 = str ''401''"
    by (simp add: show_nat.simps str_def)
  have content: "completion_content example_host ?data = Inr (JStr (str ''no json''))"
    by (simp add: completion_content_def bind_exn_def str_def)
  have cleaned: "cleanedResponse (str ''no json'') = str ''no json''"
    by (simp add: cleanedResponse_def replace_fences.simps startsWith_def fence_def
        fence_json_def trim_def str_def is_ws_def)
  have parse: "JSON_parse example_host (cleanedResponse (str ''no json'')) = Inl (str ''Unexpected token'')"
    by (simp add: cleaned) (simp add: example_host_def example_parse_def str_def)
  have msg: "\<not> js_includes (str ''Unexpected token'') (str ''OpenAI API error'')"
    by (simp add: startsWith_def str_def)
  from upstream_error_reported [of ?s example_host] w
  have "error (fst (analyzeWord example_host
        (Resolved \<lparr>ok = False, status = 401, statusText = str ''Unauthorized'', json = Inr JNull\<rparr>) ?s))
       = str ''API Error: OpenAI API error: '' @ show_nat 401 @ str '' '' @ str ''Unauthorized''
              @ str ''. Please check your OpenAI API key.''"
    and "error (fst (analyzeWord example_host
        (Resolved \<lparr>ok = True, status = 200, statusText = str ''OK'', json = Inr ?data\<rparr>) ?s))
       = str ''Failed to parse analysis. Please try again.''"
    using content parse msg by fastforce+
  moreover
  have "\<not> js_includes (exn_message (Exn (str ''AbortError'') (str ''The operation was aborted'')))
          (str ''OpenAI API error'')
      \<and> exn_name (Exn (str ''AbortError'') (str ''The operation was aborted''))
          \<noteq> str ''SyntaxError''"
    by (simp add: startsWith_def str_def)
  with upstream_error_reported [of ?s example_host] w
  have "error (fst (analyzeWord example_host
        (Rejected (Exn (str ''AbortError'') (str ''The operation was aborted''))) ?s))
       = str ''Failed to analyze the word. Please try again.''"
    by blast
  ultimately show ?thesis
    using w by (simp add: digits) (simp add: str_def)
qed

text \<open>
  As the specification states the claim, it fails for the network failure: a \<open>fetch\<close> rejected with the
  browser's TypeError is shown as the general failure, not as an API error, and no status
  appears in it.
\<close>

theorem network_failure_counterexample:
  "attempt example_host (Rejected (Exn (str ''TypeError'') (str ''Failed to fetch'')))
       (trim (str ''casa''))
     = Inl (Exn (str ''TypeError'') (str ''Failed to fetch''))
   \<and> error (fst (analyzeWord example_host
        (Rejected (Exn (str ''TypeError'') (str ''Failed to fetch'')))
        (initial_state\<lparr>word := str ''casa''\<rparr>)))
     = str ''Failed to analyze the word. Please try again.''
   \<and> \<not> startsWith (error (fst (analyzeWord example_host
        (Rejected (Exn (str ''TypeError'') (str ''Failed to fetch'')))
        (initial_state\<lparr>word := str ''casa''\<rparr>)))) (str ''API Error'')"
proof -
  have a: "attempt example_host (Rejected (Exn (str ''TypeError'') (str ''Failed to fetch'')))
       (trim (word (initial_state\<lparr>word := str ''casa''\<rparr>)))
     = Inl (Exn (str ''TypeError'') (str ''Failed to fetch''))"
    by (simp add: attempt_def)
  have w: "trim (word (initial_state\<lparr>word := str ''casa''\<rparr>)) \<noteq> []"
    by (simp add: trim_def str_def is_ws_def)
  have c: "catch_message (Exn (str ''TypeError'') (str ''Failed to fetch''))
     = str ''Failed to analyze the word. Please try again.''"
    by (simp add: catch_message_def startsWith_def str_def)
  show ?thesis
    by (simp add: analyzeWord_failure [OF w a] c attempt_def) (simp add: startsWith_def str_def)
qed


section \<open>The normalizer: defaults and fields\<close>

lemma get_named_total:
  "p \<noteq> JNull \<Longrightarrow> p \<noteq> JUndefined \<Longrightarrow> \<exists>v. get_named h p k = Inr v"
  by (cases p) simp_all

lemma safeAnalysis_unfold:
  assumes "get_named h p (str ''relatedEnglishWords'') = Inr rel"
    and "get_named h p (str ''sampleSentences'') = Inr sen"
    and "get_named h p (str ''confidence'') = Inr con"
    and "get_named h p (str ''languageFamily'') = Inr fam"
    and "get_named h p (str ''pronunciation'') = Inr pro"
  shows "safeAnalysis h w p = Inr (JObj
         (AList.update (str ''pronunciation'') (or_js pro (JStr w))
         (AList.update (str ''languageFamily'') (or_js fam (JStr (str ''Romance'')))
         (AList.update (str ''confidence'') (or_js con (JStr (str ''medium'')))
         (AList.update (str ''sampleSentences'') (or_js sen (JArr []))
         (AList.update (str ''relatedEnglishWords'') (or_js rel (JArr []))
         (spread p)))))))"
  using assms by (simp add: safeAnalysis_def bind_exn_def)

lemma or_js_defined: "b \<noteq> JNull \<Longrightarrow> b \<noteq> JUndefined \<Longrightarrow> or_js a b \<noteq> JNull \<and> or_js a b \<noteq> JUndefined"
  by (cases a) (auto simp: or_js_def)

text \<open>
  C1 as the code has it. For every parsed payload other than \<open>null\<close> the normalizer
  returns an object in which each of the five optional fields is the payload's value when
  that value is truthy, and otherwise (the field is absent, \<open>null\<close>, \<open>false\<close>, zero or
  the empty string) its default: the empty sequence for \<open>relatedEnglishWords\<close> and
  \<open>sampleSentences\<close>, \<open>medium\<close> for \<open>confidence\<close>, \<open>Romance\<close> for
  \<open>languageFamily\<close>, the trimmed word for \<open>pronunciation\<close>. A truthy confidence is
  kept whether or not it is one of the three levels.
\<close>

theorem safeAnalysis_fills_defaults:
  "p \<noteq> JNull \<and> p \<noteq> JUndefined \<longrightarrow>
     (\<exists>safe rel sen con fam pro.
        safeAnalysis h w p = Inr (JObj safe)
      \<and> get_named h p (str ''relatedEnglishWords'') = Inr rel
      \<and> map_of safe (str ''relatedEnglishWords'') = Some (if truthy rel then rel else JArr [])
      \<and> get_named h p (str ''sampleSentences'') = Inr sen
      \<and> map_of safe (str ''sampleSentences'') = Some (if truthy sen then sen else JArr [])
      \<and> get_named h p (str ''confidence'') = Inr con
      \<and> map_of safe (str ''confidence'')
          = Some (if truthy con then con else JStr (str ''medium''))
      \<and> get_named h p (str ''languageFamily'') = Inr fam
      \<and> map_of safe (str ''languageFamily'')
          = Some (if truthy fam then fam else JStr (str ''Romance''))
      \<and> get_named h p (str ''pronunciation'') = Inr pro
      \<and> map_of safe (str ''pronunciation'') = Some (if truthy pro then pro else JStr w))"
proof
  assume "p \<noteq> JNull \<and> p \<noteq> JUndefined"
  then have p: "p \<noteq> JNull" "p \<noteq> JUndefined" by simp_all
  obtain rel where rel: "get_named h p (str ''relatedEnglishWords'') = Inr rel"
    using get_named_total [OF p] by blast
  obtain sen where sen: "get_named h p (str ''sampleSentences'') = Inr sen"
    using get_named_total [OF p] by blast
  obtain con where con: "get_named h p (str ''confidence'') = Inr con"
    using get_named_total [OF p] by blast
  obtain fam where fam: "get_named h p (str ''languageFamily'') = Inr fam"
    using get_named_total [OF p] by blast
  obtain pro where pro: "get_named h p (str ''pronunciation'') = Inr pro"
    using get_named_total [OF p] by blast
  let ?safe = "AList.update (str ''pronunciation'') (or_js pro (JStr w))
         (AList.update (str ''languageFamily'') (or_js fam (JStr (str ''Romance'')))
         (AList.update (str ''confidence'') (or_js con (JStr (str ''medium'')))
         (AList.update (str ''sampleSentences'') (or_js sen (JArr []))
         (AList.update (str ''relatedEnglishWords'') (or_js rel (JArr []))
         (spread p)))))"
  have res: "safeAnalysis h w p = Inr (JObj ?safe)"
    by (rule safeAnalysis_unfold [OF rel sen con fam pro])
  have f1: "map_of ?safe (str ''relatedEnglishWords'') = Some (if truthy rel then rel else JArr [])"
    by (simp add: update_conv' or_js_def str_def)
  have f2: "map_of ?safe (str ''sampleSentences'') = Some (if truthy sen then sen else JArr [])"
    by (simp add: update_conv' or_js_def str_def)
  have f3: "map_of ?safe (str ''confidence'')
      = Some (if truthy con then con else JStr (str ''medium''))"
    by (simp add: update_conv' or_js_def str_def)
  have f4: "map_of ?safe (str ''languageFamily'')
      = Some (if truthy fam then fam else JStr (str ''Romance''))"
    by (simp add: update_conv' or_js_def str_def)
  have f5: "map_of ?safe (str ''pronunciation'') = Some (if truthy pro then pro else JStr w)"
    by (simp add: update_conv' or_js_def str_def)
  show "\<exists>safe rel sen con fam pro.
        safeAnalysis h w p = Inr (JObj safe)
      \<and> get_named h p (str ''relatedEnglishWords'') = Inr rel
      \<and> map_of safe (str ''relatedEnglishWords'') = Some (if truthy rel then rel else JArr [])
      \<and> get_named h p (str ''sampleSentences'') = Inr sen
      \<and> map_of safe (str ''sampleSentences'') = Some (if truthy sen then sen else JArr [])
      \<and> get_named h p (str ''confidence'') = Inr con
      \<and> map_of safe (str ''confidence'')
          = Some (if truthy con then con else JStr (str ''medium''))
      \<and> get_named h p (str ''languageFamily'') = Inr fam
      \<and> map_of safe (str ''languageFamily'')
          = Some (if truthy fam then fam else JStr (str ''Romance''))
      \<and> get_named h p (str ''pronunciation'') = Inr pro
      \<and> map_of safe (str ''pronunciation'') = Some (if truthy pro then pro else JStr w)"
    using res rel sen con fam pro f1 f2 f3 f4 f5 by blast
qed

theorem safeAnalysis_fills_defaults_witness:
  "JObj [(str ''word'', JStr (str ''casa''))] \<noteq> JNull
   \<and> JObj [(str ''word'', JStr (str ''casa''))] \<noteq> JUndefined
   \<and> safeAnalysis example_host (str ''casa'') (JObj [(str ''word'', JStr (str ''casa''))])
     = Inr (JObj [(str ''word'', JStr (str ''casa'')),
                  (str ''relatedEnglishWords'', JArr []),
                  (str ''sampleSentences'', JArr []),
                  (str ''confidence'', JStr (str ''medium'')),
                  (str ''languageFamily'', JStr (str ''Romance'')),
                  (str ''pronunciation'', JStr (str ''casa''))])"
  using safeAnalysis_fills_defaults
    [of "JObj [(str ''word'', JStr (str ''casa''))]" example_host "str ''casa''"]
  by (simp add: safeAnalysis_def bind_exn_def or_js_def str_def)

text \<open>
  As the specification states the claim, it fails for an unrecognized confidence: the payload whose
  confidence is \<open>banana\<close>, none of the three levels, keeps it.
\<close>

theorem unrecognized_confidence_counterexample:
  "safeAnalysis example_host (str ''casa'') (JObj [(str ''confidence'', JStr (str ''banana''))])
     = Inr (JObj [(str ''confidence'', JStr (str ''banana'')),
                  (str ''relatedEnglishWords'', JArr []),
                  (str ''sampleSentences'', JArr []),
                  (str ''languageFamily'', JStr (str ''Romance'')),
                  (str ''pronunciation'', JStr (str ''casa''))])
   \<and> JStr (str ''banana'') \<notin> set confidence_levels
   \<and> JStr (str ''banana'') \<noteq> JStr (str ''medium'')"
  by (simp add: safeAnalysis_def bind_exn_def or_js_def confidence_levels_def str_def)

text \<open>
  C2 as the code has it. For every parsed payload other than \<open>null\<close> the normalizer
  returns an object in which each of the five optional fields is present and neither
  \<open>null\<close> nor \<open>undefined\<close>. Every other field, the four required ones among them, is
  what the spread of the payload holds under that name: present in the result exactly
  when the payload has it, with the payload's value.
\<close>

theorem safeAnalysis_fields_present:
  "p \<noteq> JNull \<and> p \<noteq> JUndefined \<longrightarrow>
     (\<exists>safe. safeAnalysis h w p = Inr (JObj safe)
        \<and> (\<forall>k \<in> set optional_fields.
             \<exists>v. map_of safe k = Some v \<and> v \<noteq> JNull \<and> v \<noteq> JUndefined)
        \<and> (\<forall>k. k \<notin> set optional_fields \<longrightarrow> map_of safe k = map_of (spread p) k)
        \<and> (\<forall>k \<in> set required_fields. map_of safe k = map_of (spread p) k))"
proof
  assume "p \<noteq> JNull \<and> p \<noteq> JUndefined"
  then have p: "p \<noteq> JNull" "p \<noteq> JUndefined" by simp_all
  obtain rel where rel: "get_named h p (str ''relatedEnglishWords'') = Inr rel"
    using get_named_total [OF p] by blast
  obtain sen where sen: "get_named h p (str ''sampleSentences'') = Inr sen"
    using get_named_total [OF p] by blast
  obtain con where con: "get_named h p (str ''confidence'') = Inr con"
    using get_named_total [OF p] by blast
  obtain fam where fam: "get_named h p (str ''languageFamily'') = Inr fam"
    using get_named_total [OF p] by blast
  obtain pro where pro: "get_named h p (str ''pronunciation'') = Inr pro"
    using get_named_total [OF p] by blast
  let ?safe = "AList.update (str ''pronunciation'') (or_js pro (JStr w))
         (AList.update (str ''languageFamily'') (or_js fam (JStr (str ''Romance'')))
         (AList.update (str ''confidence'') (or_js con (JStr (str ''medium'')))
         (AList.update (str ''sampleSentences'') (or_js sen (JArr []))
         (AList.update (str ''relatedEnglishWords'') (or_js rel (JArr []))
         (spread p)))))"
  have res: "safeAnalysis h w p = Inr (JObj ?safe)"
    by (rule safeAnalysis_unfold [OF rel sen con fam pro])
  have d1: "or_js rel (JArr []) \<noteq> JNull \<and> or_js rel (JArr []) \<noteq> JUndefined"
    by (rule or_js_defined) simp_all
  have d2: "or_js sen (JArr []) \<noteq> JNull \<and> or_js sen (JArr []) \<noteq> JUndefined"
    by (rule or_js_defined) simp_all
  have d3: "or_js con (JStr (str ''medium'')) \<noteq> JNull
      \<and> or_js con (JStr (str ''medium'')) \<noteq> JUndefined"
    by (rule or_js_defined) simp_all
  have d4: "or_js fam (JStr (str ''Romance'')) \<noteq> JNull
      \<and> or_js fam (JStr (str ''Romance'')) \<noteq> JUndefined"
    by (rule or_js_defined) simp_all
  have d5: "or_js pro (JStr w) \<noteq> JNull \<and> or_js pro (JStr w) \<noteq> JUndefined"
    by (rule or_js_defined) simp_all
  have optional: "\<forall>k \<in> set optional_fields.
      \<exists>v. map_of ?safe k = Some v \<and> v \<noteq> JNull \<and> v \<noteq> JUndefined"
    using d1 d2 d3 d4 d5 by (simp add: optional_fields_def update_conv' str_def)
  have others: "\<forall>k. k \<notin> set optional_fields \<longrightarrow> map_of ?safe k = map_of (spread p) k"
    by (simp add: optional_fields_def update_conv')
  have "set required_fields \<inter> set optional_fields = {}"
    by (simp add: required_fields_def optional_fields_def str_def)
  with others have required: "\<forall>k \<in> set required_fields. map_of ?safe k = map_of (spread p) k"
    by blast
  show "\<exists>safe. safeAnalysis h w p = Inr (JObj safe)
        \<and> (\<forall>k \<in> set optional_fields.
             \<exists>v. map_of safe k = Some v \<and> v \<noteq> JNull \<and> v \<noteq> JUndefined)
        \<and> (\<forall>k. k \<notin> set optional_fields \<longrightarrow> map_of safe k = map_of (spread p) k)
        \<and> (\<forall>k \<in> set required_fields. map_of safe k = map_of (spread p) k)"
    using res optional others required by blast
qed

theorem safeAnalysis_fields_present_witness:
  "JObj [(str ''word'', JStr (str ''casa'')), (str ''confidence'', JNull)] \<noteq> JNull
   \<and> JObj [(str ''word'', JStr (str ''casa'')), (str ''confidence'', JNull)] \<noteq> JUndefined
   \<and> safeAnalysis example_host (str ''casa'')
       (JObj [(str ''word'', JStr (str ''casa'')), (str ''confidence'', JNull)])
     = Inr (JObj [(str ''word'', JStr (str ''casa'')),
                  (str ''confidence'', JStr (str ''medium'')),
                  (str ''relatedEnglishWords'', JArr []),
                  (str ''sampleSentences'', JArr []),
                  (str ''languageFamily'', JStr (str ''Romance'')),
                  (str ''pronunciation'', JStr (str ''casa''))])"
  using safeAnalysis_fields_present
    [of "JObj [(str ''word'', JStr (str ''casa'')), (str ''confidence'', JNull)]"
        example_host "str ''casa''"]
  by (simp add: safeAnalysis_def bind_exn_def or_js_def str_def)

text \<open>
  As the specification states the claim, it fails for a payload that omits required fields: the completion
  text of the empty object parses, and its normalized record has none of the four
  required fields. For the payload \<open>null\<close>, which parses as well, there is no record.
\<close>

theorem omitted_required_fields_counterexample:
  "normalize example_host (str ''casa'') (str ''{}'')
     = Inr (JObj [(str ''relatedEnglishWords'', JArr []),
                  (str ''sampleSentences'', JArr []),
                  (str ''confidence'', JStr (str ''medium'')),
                  (str ''languageFamily'', JStr (str ''Romance'')),
                  (str ''pronunciation'', JStr (str ''casa''))])
   \<and> map (map_of [(str ''relatedEnglishWords'', JArr []),
                  (str ''sampleSentences'', JArr []),
                  (str ''confidence'', JStr (str ''medium'')),
                  (str ''languageFamily'', JStr (str ''Romance'')),
                  (str ''pronunciation'', JStr (str ''casa''))]) required_fields
     = [None, None, None, None]
   \<and> normalize example_host (str ''casa'') (str ''null'') = Inl (TypeError example_host)"
proof -
  have c1: "cleanedResponse (str ''{}'') = str ''{}''"
    by (simp add: cleanedResponse_def replace_fences.simps startsWith_def fence_def
        fence_json_def trim_def str_def is_ws_def)
  have c2: "cleanedResponse (str ''null'') = str ''null''"
    by (simp add: cleanedResponse_def replace_fences.simps startsWith_def fence_def
        fence_json_def trim_def str_def is_ws_def)
  have p1: "JSON_parse example_host (str ''{}'') = Inr (JObj [])"
    by (simp add: example_host_def example_parse_def)
  have p2: "JSON_parse example_host (str ''null'') = Inr JNull"
    by (simp add: example_host_def example_parse_def str_def)
  have n1: "normalize example_host (str ''casa'') (str ''{}'')
     = Inr (JObj [(str ''relatedEnglishWords'', JArr []),
                  (str ''sampleSentences'', JArr []),
                  (str ''confidence'', JStr (str ''medium'')),
                  (str ''languageFamily'', JStr (str ''Romance'')),
                  (str ''pronunciation'', JStr (str ''casa''))])"
    by (simp add: normalize_def c1 p1) (simp add: safeAnalysis_def bind_exn_def or_js_def str_def)
  have n2: "normalize example_host (str ''casa'') (str ''null'') = Inl (TypeError example_host)"
    by (simp add: normalize_def c2 p2) (simp add: safeAnalysis_def bind_exn_def)
  have absent: "map (map_of [(str ''relatedEnglishWords'', JArr []),
                  (str ''sampleSentences'', JArr []),
                  (str ''confidence'', JStr (str ''medium'')),
                  (str ''languageFamily'', JStr (str ''Romance'')),
                  (str ''pronunciation'', JStr (str ''casa''))]) required_fields
     = [None, None, None, None]"
    by (simp add: required_fields_def str_def)
  show ?thesis
    using n1 n2 absent by simp
qed


section \<open>Voice selection\<close>

lemma or_voice_simps:
  "or_voice (Some v) b = Some v" "or_voice None b = b"
  by (simp_all add: or_voice_def)

lemma find_first_match:
  "\<exists>v \<in> set xs. P v \<Longrightarrow> \<exists>v. find P xs = Some v \<and> v \<in> set xs \<and> P v"
  by (induction xs) auto

lemma find_no_match: "\<not> (\<exists>v \<in> set xs. P v) \<Longrightarrow> find P xs = None"
  by (simp add: find_None_iff)

lemma find_filter_hd:
  "find P xs = (case filter P xs of [] \<Rightarrow> None | x # _ \<Rightarrow> Some x)"
  by (induction xs) simp_all

text \<open>
  C5 as the code has it. \<open>loadVoices\<close> keeps, in the order of the catalog, the voices
  whose language tag starts with \<open>es\<close> or whose lower-cased name contains \<open>spanish\<close>.
  Among these it prefers a voice tagged \<open>es-US\<close> whose lower-cased name contains
  \<open>google\<close>; when there is none, a voice tagged \<open>es-US\<close>; when there is none, the
  first kept voice, which is the first voice of the catalog that passes the filter; and it
  prefers none when no voice is kept. A preferred voice becomes the selected one. With
  none preferred the stored selection is left as it was: none at the start of the page,
  the voice selected before on a later run.
\<close>

theorem loadVoices_selection_policy:
  "spanishVoices h voices
     = filter (\<lambda>v. startsWith (lang v) (str ''es'')
                   \<or> js_includes (toLowerCase h (name v)) (str ''spanish'')) voices
   \<and> (\<forall>v. v \<in> set (spanishVoices h voices) \<longleftrightarrow>
        v \<in> set voices
        \<and> (startsWith (lang v) (str ''es'')
           \<or> js_includes (toLowerCase h (name v)) (str ''spanish'')))
   \<and> availableVoices (loadVoices h voices s) = spanishVoices h voices
   \<and> ((\<exists>v \<in> set (spanishVoices h voices).
          lang v = str ''es-US'' \<and> js_includes (toLowerCase h (name v)) (str ''google'')) \<longrightarrow>
        (\<exists>v. preferredVoice h (spanishVoices h voices) = Some v
           \<and> v \<in> set (spanishVoices h voices)
           \<and> lang v = str ''es-US''
           \<and> js_includes (toLowerCase h (name v)) (str ''google'')))
   \<and> (\<not> (\<exists>v \<in> set (spanishVoices h voices).
          lang v = str ''es-US'' \<and> js_includes (toLowerCase h (name v)) (str ''google''))
       \<and> (\<exists>v \<in> set (spanishVoices h voices). lang v = str ''es-US'') \<longrightarrow>
        (\<exists>v. preferredVoice h (spanishVoices h voices) = Some v
           \<and> v \<in> set (spanishVoices h voices) \<and> lang v = str ''es-US''))
   \<and> (\<not> (\<exists>v \<in> set (spanishVoices h voices). lang v = str ''es-US'')
       \<and> spanishVoices h voices \<noteq> [] \<longrightarrow>
        preferredVoice h (spanishVoices h voices) = Some (hd (spanishVoices h voices))
        \<and> preferredVoice h (spanishVoices h voices)
            = find (\<lambda>v. startsWith (lang v) (str ''es'')
                         \<or> js_includes (toLowerCase h (name v)) (str ''spanish'')) voices)
   \<and> (spanishVoices h voices = [] \<longrightarrow> preferredVoice h (spanishVoices h voices) = None)
   \<and> selectedVoice (loadVoices h voices s)
       = (case preferredVoice h (spanishVoices h voices) of
            Some v \<Rightarrow> Some v | None \<Rightarrow> selectedVoice s)
   \<and> (spanishVoices h voices = [] \<longrightarrow>
        selectedVoice (loadVoices h voices s) = selectedVoice s)
   \<and> selectedVoice initial_state = None"
proof -
  let ?sp = "spanishVoices h voices"
  let ?google = "\<lambda>v. lang v = str ''es-US''
                     \<and> js_includes (toLowerCase h (name v)) (str ''google'')"
  let ?us = "\<lambda>v. lang v = str ''es-US''"
  have order: "?sp
     = filter (\<lambda>v. startsWith (lang v) (str ''es'')
                   \<or> js_includes (toLowerCase h (name v)) (str ''spanish'')) voices"
    by (simp add: spanishVoices_def)
  have kept: "\<forall>v. v \<in> set ?sp \<longleftrightarrow>
        v \<in> set voices
        \<and> (startsWith (lang v) (str ''es'')
           \<or> js_includes (toLowerCase h (name v)) (str ''spanish''))"
    by (simp add: spanishVoices_def)
  have avail: "availableVoices (loadVoices h voices s) = ?sp"
    by (simp add: loadVoices_def Let_def split: option.split)
  have first: "(\<exists>v \<in> set ?sp. ?google v) \<longrightarrow>
      (\<exists>v. preferredVoice h ?sp = Some v \<and> v \<in> set ?sp \<and> ?google v)"
  proof
    assume that: "\<exists>v \<in> set ?sp. ?google v"
    from find_first_match [of ?sp ?google] that
    obtain v where "find ?google ?sp = Some v" "v \<in> set ?sp" "?google v" by blast
    then show "\<exists>v. preferredVoice h ?sp = Some v \<and> v \<in> set ?sp \<and> ?google v"
      by (simp add: preferredVoice_def or_voice_simps)
  qed
  have second: "\<not> (\<exists>v \<in> set ?sp. ?google v) \<and> (\<exists>v \<in> set ?sp. ?us v) \<longrightarrow>
      (\<exists>v. preferredVoice h ?sp = Some v \<and> v \<in> set ?sp \<and> ?us v)"
  proof
    assume that: "\<not> (\<exists>v \<in> set ?sp. ?google v) \<and> (\<exists>v \<in> set ?sp. ?us v)"
    from that have none: "find ?google ?sp = None"
      using find_no_match [of ?sp ?google] by blast
    from find_first_match [of ?sp ?us] that
    obtain v where "find ?us ?sp = Some v" "v \<in> set ?sp" "?us v" by blast
    with none show "\<exists>v. preferredVoice h ?sp = Some v \<and> v \<in> set ?sp \<and> ?us v"
      by (simp add: preferredVoice_def or_voice_simps)
  qed
  have third: "\<not> (\<exists>v \<in> set ?sp. ?us v) \<and> ?sp \<noteq> [] \<longrightarrow>
      preferredVoice h ?sp = Some (hd ?sp)
      \<and> preferredVoice h ?sp
          = find (\<lambda>v. startsWith (lang v) (str ''es'')
                       \<or> js_includes (toLowerCase h (name v)) (str ''spanish'')) voices"
  proof
    assume that: "\<not> (\<exists>v \<in> set ?sp. ?us v) \<and> ?sp \<noteq> []"
    from that have "find ?us ?sp = None"
      using find_no_match [of ?sp ?us] by blast
    moreover from that have "find ?google ?sp = None"
      using find_no_match [of ?sp ?google] by blast
    ultimately have hd: "preferredVoice h ?sp = Some (hd ?sp)"
      using that by (cases ?sp) (simp_all add: preferredVoice_def or_voice_simps)
    have "find (\<lambda>v. startsWith (lang v) (str ''es'')
                       \<or> js_includes (toLowerCase h (name v)) (str ''spanish'')) voices
        = (case ?sp of [] \<Rightarrow> None | x # _ \<Rightarrow> Some x)"
      unfolding order by (rule find_filter_hd)
    also have "\<dots> = Some (hd ?sp)"
      using that by (cases ?sp) simp_all
    finally show "preferredVoice h ?sp = Some (hd ?sp)
      \<and> preferredVoice h ?sp
          = find (\<lambda>v. startsWith (lang v) (str ''es'')
                       \<or> js_includes (toLowerCase h (name v)) (str ''spanish'')) voices"
      using hd by simp
  qed
  have fourth: "?sp = [] \<longrightarrow> preferredVoice h ?sp = None"
    by (simp add: preferredVoice_def or_voice_simps)
  have stored: "selectedVoice (loadVoices h voices s)
       = (case preferredVoice h ?sp of Some v \<Rightarrow> Some v | None \<Rightarrow> selectedVoice s)" for s
    by (simp add: loadVoices_def Let_def split: option.split)
  have stale: "?sp = [] \<longrightarrow> selectedVoice (loadVoices h voices s) = selectedVoice s"
    using fourth by (simp add: stored)
  have start: "selectedVoice initial_state = None"
    by (simp add: initial_state_def)
  show ?thesis
    by (intro conjI) (rule order kept avail first second third fourth stored stale start)+
qed

theorem loadVoices_selection_policy_witness:
  "selectedVoice (loadVoices example_host
      [\<lparr>lang = str ''en-US'', name = str ''Samantha'', localService = True\<rparr>,
       \<lparr>lang = str ''es-ES'', name = str ''Monica'', localService = True\<rparr>,
       \<lparr>lang = str ''es-US'', name = str ''Google espa'' @ [241] @ str ''ol'', localService = False\<rparr>]
      initial_state)
     = Some \<lparr>lang = str ''es-US'', name = str ''Google espa'' @ [241] @ str ''ol'', localService = False\<rparr>
   \<and> selectedVoice (loadVoices example_host
      [\<lparr>lang = str ''en-US'', name = str ''Samantha'', localService = True\<rparr>,
       \<lparr>lang = str ''es-ES'', name = str ''Monica'', localService = True\<rparr>]
      initial_state)
     = Some \<lparr>lang = str ''es-ES'', name = str ''Monica'', localService = True\<rparr>
   \<and> selectedVoice (loadVoices example_host
      [\<lparr>lang = str ''en-US'', name = str ''Samantha'', localService = True\<rparr>]
      initial_state)
     = None
   \<and> selectedVoice (loadVoices example_host
      [\<lparr>lang = str ''en-US'', name = str ''Samantha'', localService = True\<rparr>]
      (loadVoices example_host
        [\<lparr>lang = str ''en-US'', name = str ''Samantha'', localService = True\<rparr>,
         \<lparr>lang = str ''es-ES'', name = str ''Monica'', localService = True\<rparr>]
        initial_state))
     = Some \<lparr>lang = str ''es-ES'', name = str ''Monica'', localService = True\<rparr>"
proof -
  let ?en = "\<lparr>lang = str ''en-US'', name = str ''Samantha'', localService = True\<rparr>"
  let ?es = "\<lparr>lang = str ''es-ES'', name = str ''Monica'', localService = True\<rparr>"
  let ?us = "\<lparr>lang = str ''es-US'', name = str ''Google espa'' @ [241] @ str ''ol'',
              localService = False\<rparr>"
  have lower: "toLowerCase example_host = ascii_lower"
    by (simp add: example_host_def)
  have sp3: "spanishVoices example_host [?en, ?es, ?us] = [?es, ?us]"
    by (simp add: spanishVoices_def lower ascii_lower_def startsWith_def str_def)
  have sp2: "spanishVoices example_host [?en, ?es] = [?es]"
    by (simp add: spanishVoices_def lower ascii_lower_def startsWith_def str_def)
  have sp1: "spanishVoices example_host [?en] = []"
    by (simp add: spanishVoices_def lower ascii_lower_def startsWith_def str_def)
  have google: "lang ?us = str ''es-US''
      \<and> js_includes (toLowerCase example_host (name ?us)) (str ''google'')"
    by (simp add: lower ascii_lower_def startsWith_def str_def)
  have es: "lang ?es \<noteq> str ''es-US''"
    by (simp add: str_def)
  note three = loadVoices_selection_policy [of example_host "[?en, ?es, ?us]" initial_state]
  note two = loadVoices_selection_policy [of example_host "[?en, ?es]" initial_state]
  note one = loadVoices_selection_policy [of example_host "[?en]" initial_state]
  note again = loadVoices_selection_policy
    [of example_host "[?en]" "loadVoices example_host [?en, ?es] initial_state"]
  have "\<exists>v \<in> set [?es, ?us]. lang v = str ''es-US''
      \<and> js_includes (toLowerCase example_host (name v)) (str ''google'')"
    using google by simp
  with three obtain v where v: "preferredVoice example_host [?es, ?us] = Some v"
      "v \<in> set [?es, ?us]" "lang v = str ''es-US''"
    unfolding sp3 by blast
  from v(2,3) es have "v = ?us" by auto
  with v(1) three have r3:
    "selectedVoice (loadVoices example_host [?en, ?es, ?us] initial_state) = Some ?us"
    unfolding sp3 by simp
  have "\<not> (\<exists>v \<in> set [?es]. lang v = str ''es-US'') \<and> [?es] \<noteq> []"
    using es by simp
  with two have "preferredVoice example_host [?es] = Some (hd [?es])"
    unfolding sp2 by blast
  with two have r2:
    "selectedVoice (loadVoices example_host [?en, ?es] initial_state) = Some ?es"
    unfolding sp2 by simp
  from one have r1: "selectedVoice (loadVoices example_host [?en] initial_state) = None"
    unfolding sp1 by simp
  from again have "selectedVoice (loadVoices example_host [?en]
        (loadVoices example_host [?en, ?es] initial_state))
      = selectedVoice (loadVoices example_host [?en, ?es] initial_state)"
    unfolding sp1 by blast
  with r2 have r0: "selectedVoice (loadVoices example_host [?en]
        (loadVoices example_host [?en, ?es] initial_state)) = Some ?es"
    by simp
  from r3 r2 r1 r0 show ?thesis by simp
qed

text \<open>
  As the specification states the claim, it fails when the catalog changes to one without
  a Spanish voice: after a run that selected a voice, the run on the empty catalog keeps no
  voice and prefers none, and the voice selected before stays selected.
\<close>

theorem stale_selection_counterexample:
  "spanishVoices example_host [] = []
   \<and> preferredVoice example_host (spanishVoices example_host []) = None
   \<and> availableVoices (loadVoices example_host []
        (loadVoices example_host
          [\<lparr>lang = str ''es-ES'', name = str ''Monica'', localService = True\<rparr>]
          initial_state)) = []
   \<and> selectedVoice (loadVoices example_host []
        (loadVoices example_host
          [\<lparr>lang = str ''es-ES'', name = str ''Monica'', localService = True\<rparr>]
          initial_state))
     = Some \<lparr>lang = str ''es-ES'', name = str ''Monica'', localService = True\<rparr>
   \<and> selectedVoice (loadVoices example_host []
        (loadVoices example_host
          [\<lparr>lang = str ''es-ES'', name = str ''Monica'', localService = True\<rparr>]
          initial_state))
     \<noteq> None"
proof -
  let ?es = "\<lparr>lang = str ''es-ES'', name = str ''Monica'', localService = True\<rparr>"
  have sp: "spanishVoices example_host [?es] = [?es]"
    by (simp add: spanishVoices_def startsWith_def str_def)
  have sp0: "spanishVoices example_host [] = []"
    by (simp add: spanishVoices_def)
  have p: "preferredVoice example_host [?es] = Some ?es"
    by (simp add: preferredVoice_def or_voice_def str_def)
  have p0: "preferredVoice example_host [] = None"
    by (simp add: preferredVoice_def or_voice_def)
  have s1: "selectedVoice (loadVoices example_host [?es] initial_state) = Some ?es"
    by (simp add: loadVoices_def Let_def sp p)
  have s2: "selectedVoice (loadVoices example_host []
        (loadVoices example_host [?es] initial_state)) = Some ?es"
    by (simp add: loadVoices_def [of example_host "[]"] Let_def sp0 p0 s1)
  have a2: "availableVoices (loadVoices example_host []
        (loadVoices example_host [?es] initial_state)) = []"
    by (simp add: loadVoices_def [of example_host "[]"] Let_def sp0 p0)
  from sp0 p0 s2 a2 show ?thesis by simp
qed

section \<open>The render boundary\<close>














section \<open>Code fences\<close>

lemma fence_code:
  "fence = [96, 96, 96]" "fence_json = [96, 96, 96, 106, 115, 111, 110]"
  by (simp_all add: fence_def fence_json_def str_def)

lemma not_ws_fence_chars:
  "\<not> is_ws 96" "\<not> is_ws 106" "\<not> is_ws 115" "\<not> is_ws 111" "\<not> is_ws 110"
  by (simp_all add: is_ws_def)

lemma startsWith_length: "startsWith s p \<Longrightarrow> length p \<le> length s"
proof -
  assume "startsWith s p"
  then have "length (take (length p) s) = length p"
    by (simp add: startsWith_def)
  then show ?thesis by simp
qed

lemma startsWith_append: "startsWith s p \<Longrightarrow> startsWith (s @ t) p"
  using startsWith_length [of s p] by (simp add: startsWith_def)

lemma length_fence: "length fence = 3" "length fence_json = 7"
  by (simp_all add: fence_code)

lemma startsWith_fence_iff:
  "startsWith s fence \<longleftrightarrow> take 3 s = [96, 96, 96]"
  "startsWith s fence_json \<longleftrightarrow> take 7 s = [96, 96, 96, 106, 115, 111, 110]"
  by (simp_all only: startsWith_def length_fence) (simp_all only: fence_code)

lemma not_startsWith_Nil: "\<not> startsWith [] fence" "\<not> startsWith [] fence_json"
  by (simp_all add: startsWith_fence_iff)

lemma startsWith_json_fence: "startsWith s fence_json \<Longrightarrow> startsWith s fence"
proof -
  assume "startsWith s fence_json"
  then have a: "take 7 s = [96, 96, 96, 106, 115, 111, 110]"
    by (simp only: startsWith_fence_iff)
  have "take 3 s = take 3 (take 7 s)" by simp
  with a have "take 3 s = [96, 96, 96]" by simp
  then show ?thesis by (simp only: startsWith_fence_iff)
qed

lemma startsWith_fence_hd: "startsWith (c # cs) fence \<Longrightarrow> c = 96"
  by (simp add: startsWith_fence_iff)

lemma replace_fences_ws:
  "is_ws c \<Longrightarrow> \<not> startsWith (dropWhile is_ws cs) fence \<Longrightarrow>
     replace_fences (c # cs) = c # replace_fences cs"
  using startsWith_json_fence [of "c # cs"] startsWith_fence_hd [of c cs] not_ws_fence_chars(1)
  by (auto simp: replace_fences.simps(2))

lemma replace_fences_keep:
  "\<not> is_ws c \<Longrightarrow> \<not> startsWith (c # cs) fence \<Longrightarrow>
     replace_fences (c # cs) = c # replace_fences cs"
  using startsWith_json_fence [of "c # cs"]
  by (auto simp: replace_fences.simps(2))

lemma replace_fences_all_ws: "list_all is_ws s \<Longrightarrow> replace_fences s = s"
proof (induction s)
  case Nil
  show ?case by simp
next
  case (Cons c cs)
  then have "dropWhile is_ws cs = []"
    by (simp add: list_all_iff)
  then have "\<not> startsWith (dropWhile is_ws cs) fence"
    by (simp only: not_startsWith_Nil) simp
  with Cons show ?case
    by (simp add: replace_fences_ws)
qed

lemma replace_fences_fence: "replace_fences fence = []"
  by (simp add: fence_code replace_fences.simps(2) startsWith_def is_ws_def)

lemma replace_fences_ws_fence: "list_all is_ws u \<Longrightarrow> replace_fences (u @ fence) = []"
proof (cases u)
  case Nil
  then show ?thesis by (simp add: replace_fences_fence)
next
  case (Cons c cs)
  assume ws: "list_all is_ws u"
  with Cons have c: "is_ws c" by simp
  have d: "dropWhile is_ws (u @ fence) = fence"
    using ws not_ws_fence_chars(1) by (simp add: list_all_iff fence_code)
  have "\<not> startsWith (u @ fence) fence_json"
    using c Cons startsWith_json_fence [of "u @ fence"] startsWith_fence_hd [of c "cs @ fence"]
      not_ws_fence_chars(1)
    by auto
  then have "replace_fences (u @ fence) = replace_fences (drop 3 fence)"
    using d Cons by (simp add: replace_fences.simps(2) startsWith_def)
  then show ?thesis by (simp add: fence_code)
qed

text \<open>Leading white space in front of anything but a fence is kept.\<close>

lemma replace_fences_leading_ws:
  "(case dropWhile is_ws s of [] \<Rightarrow> True | c # _ \<Rightarrow> c \<noteq> 96) \<Longrightarrow>
     replace_fences s = takeWhile is_ws s @ replace_fences (dropWhile is_ws s)"
proof (induction s)
  case Nil
  show ?case by simp
next
  case (Cons c cs)
  show ?case
  proof (cases "is_ws c")
    case True
    with Cons.prems have p: "case dropWhile is_ws cs of [] \<Rightarrow> True | c # _ \<Rightarrow> c \<noteq> 96"
      by simp
    have "\<not> startsWith (dropWhile is_ws cs) fence"
    proof (cases "dropWhile is_ws cs")
      case Nil
      show ?thesis unfolding Nil by (rule not_startsWith_Nil)
    next
      case (Cons d ds)
      with p have "d \<noteq> 96" by simp
      then show ?thesis unfolding Cons using startsWith_fence_hd by blast
    qed
    with True have "replace_fences (c # cs) = c # replace_fences cs"
      by (rule replace_fences_ws)
    with True Cons.IH [OF p] show ?thesis by simp
  next
    case False
    then show ?thesis by simp
  qed
qed

text \<open>A text that is not white space only leaves something that is not white space only,
  unless its first character of that kind opens a fence.\<close>

lemma replace_fences_not_all_ws:
  "\<not> list_all is_ws s \<Longrightarrow> \<not> startsWith (dropWhile is_ws s) fence \<Longrightarrow>
     \<not> list_all is_ws (replace_fences s)"
proof (induction s)
  case Nil
  then show ?case by simp
next
  case (Cons c cs)
  show ?case
  proof (cases "is_ws c")
    case True
    with Cons.prems have "replace_fences (c # cs) = c # replace_fences cs"
      by (simp add: replace_fences_ws)
    with True Cons show ?thesis by simp
  next
    case False
    with Cons.prems have "replace_fences (c # cs) = c # replace_fences cs"
      by (simp add: replace_fences_keep)
    with False show ?thesis by simp
  qed
qed


lemma trim_trimEnd_dropWhile: "trim s = trimEnd (dropWhile is_ws s)"
  by (simp add: trim_def trimEnd_def)

lemma trimEnd_all_ws: "list_all is_ws s \<Longrightarrow> trimEnd s = []"
  by (simp add: trimEnd_def list_all_iff)

lemma trimEnd_Cons:
  "trimEnd (c # s) = (if list_all is_ws (c # s) then [] else c # trimEnd s)"
  by (auto simp: trimEnd_def dropWhile_append list_all_iff)

lemma trimEnd_idem: "trimEnd (trimEnd s) = trimEnd s"
  by (simp add: trimEnd_def)

lemma dropWhile_trimEnd: "dropWhile is_ws (trimEnd s) = trimEnd (dropWhile is_ws s)"
proof (induction s)
  case Nil
  show ?case by (simp add: trimEnd_def)
next
  case (Cons c s)
  show ?case
  proof (cases "list_all is_ws (c # s)")
    case True
    then have "dropWhile is_ws (c # s) = []"
      by (simp add: list_all_iff)
    with True show ?thesis
      by (simp only: trimEnd_all_ws) (simp add: trimEnd_def)
  next
    case False
    then show ?thesis
      using Cons.IH by (simp add: trimEnd_Cons)
  qed
qed

lemma trim_trimEnd: "trim (trimEnd s) = trim s"
  by (simp add: trim_trimEnd_dropWhile dropWhile_trimEnd trimEnd_idem)

lemma trim_ws_append: "list_all is_ws u \<Longrightarrow> trim (u @ s) = trim s"
  by (simp add: trim_def list_all_iff)

lemma last_dropWhile_eq: "dropWhile P xs \<noteq> [] \<Longrightarrow> last (dropWhile P xs) = last xs"
proof -
  assume "dropWhile P xs \<noteq> []"
  then have "last (takeWhile P xs @ dropWhile P xs) = last (dropWhile P xs)"
    by (rule last_appendR)
  then show ?thesis by simp
qed

text \<open>No opening marker with tag arises across the seam to the closing fence.\<close>

lemma no_fence_json_across:
  assumes ws: "list_all is_ws ws2" and nK: "\<not> startsWith K fence_json"
  shows "\<not> startsWith (K @ ws2 @ fence) fence_json"
proof
  assume "startsWith (K @ ws2 @ fence) fence_json"
  then have st: "take 7 (K @ ws2 @ fence) = [96, 96, 96, 106, 115, 111, 110]"
    by (simp only: startsWith_fence_iff)
  show False
  proof (cases "7 \<le> length K")
    case True
    with st have "take 7 K = [96, 96, 96, 106, 115, 111, 110]" by simp
    with nK show False by (simp add: startsWith_fence_iff)
  next
    case False
    define n where "n = 7 - length K"
    from False have n: "0 < n" by (simp add: n_def)
    from False st have eq: "K @ take n (ws2 @ fence) = [96, 96, 96, 106, 115, 111, 110]"
      by (simp add: n_def)
    show False
    proof (cases ws2)
      case Nil
      from n have ne: "take n fence \<noteq> []" by (simp add: fence_code)
      have "set (take n fence) \<subseteq> {96}"
        using set_take_subset [of n fence] by (simp add: fence_code)
      with ne have "last (take n fence) = 96"
        using last_in_set [OF ne] by blast
      moreover from eq Nil ne have "last (take n fence) = 110"
        using last_appendR [of "take n fence" K] by simp
      ultimately show False by simp
    next
      case (Cons w ws)
      with n obtain m where "n = Suc m" by (cases n) simp_all
      with Cons have "w \<in> set (K @ take n (ws2 @ fence))" by simp
      with eq have "w \<in> {96, 106, 115, 111, 110}" by simp
      moreover from ws Cons have "is_ws w" by simp
      ultimately show False using not_ws_fence_chars by auto
    qed
  qed
qed

text \<open>No marker arises across the seam behind a text that does not end in a backquote.\<close>

lemma no_fence_across:
  assumes ne: "K \<noteq> []" and l: "last K \<noteq> 96" and nK: "\<not> startsWith K fence"
  shows "\<not> startsWith (K @ S) fence"
proof
  assume "startsWith (K @ S) fence"
  then have st: "take 3 (K @ S) = [96, 96, 96]"
    by (simp only: startsWith_fence_iff)
  show False
  proof (cases "3 \<le> length K")
    case True
    with st have "take 3 K = [96, 96, 96]" by simp
    with nK show False by (simp add: startsWith_fence_iff)
  next
    case False
    with st have "K @ take (3 - length K) S = [96, 96, 96]" by simp
    then have "set K \<subseteq> set [96, 96, 96]"
      by (metis set_append Un_upper1)
    then have "set K \<subseteq> {96}" by simp
    with last_in_set [OF ne] have "last K = 96" by blast
    with l show False by simp
  qed
qed


lemma replace_fences_step:
  "s \<noteq> [] \<Longrightarrow>
     replace_fences s =
       (if startsWith s fence_json then replace_fences (dropWhile is_ws (drop 7 s))
        else if startsWith (dropWhile is_ws s) fence
        then replace_fences (drop 3 (dropWhile is_ws s))
        else hd s # replace_fences (tl s))"
  by (cases s) (simp_all add: replace_fences.simps(2))

lemma dropWhile_append_not_all:
  "\<not> list_all P xs \<Longrightarrow> dropWhile P (xs @ ys) = dropWhile P xs @ ys"
proof -
  assume "\<not> list_all P xs"
  then obtain x where "x \<in> set xs" "\<not> P x"
    by (auto simp: list_all_iff)
  then show ?thesis by (rule dropWhile_append1)
qed

text \<open>
  The closing fence: behind a text that does not end in a backquote, white space and the
  closing marker are deleted together with the white space that ends what is left of the
  text.
\<close>

lemma replace_fences_closing:
  assumes ws: "list_all is_ws ws2"
  shows "K = [] \<or> last K \<noteq> 96 \<Longrightarrow>
     replace_fences (K @ ws2 @ fence) = trimEnd (replace_fences K)"
proof (induction K rule: length_induct)
  case (1 K)
  have IH: "replace_fences (ys @ ws2 @ fence) = trimEnd (replace_fences ys)"
    if "length ys < length K" and "ys = [] \<or> last ys \<noteq> 96" for ys
    using "1.IH" that by blast
  show ?case
  proof (cases "list_all is_ws K")
    case True
    with ws have "list_all is_ws (K @ ws2)" by simp
    then have "replace_fences ((K @ ws2) @ fence) = []"
      by (rule replace_fences_ws_fence)
    moreover from True have "trimEnd (replace_fences K) = []"
      by (simp add: replace_fences_all_ws trimEnd_all_ws)
    ultimately show ?thesis by simp
  next
    case False
    then have Kne: "K \<noteq> []" by auto
    with "1.prems" have l: "last K \<noteq> 96" by simp
    define K' where "K' = dropWhile is_ws K"
    from False have K'ne: "K' \<noteq> []"
      by (simp add: K'_def list_all_iff)
    have dK: "dropWhile is_ws (K @ ws2 @ fence) = K' @ ws2 @ fence"
      using False by (simp add: K'_def dropWhile_append_not_all)
    have lK': "last K' = last K"
      using K'ne unfolding K'_def by (rule last_dropWhile_eq)
    have KSne: "K @ ws2 @ fence \<noteq> []"
      using Kne by simp
    show ?thesis
    proof (cases "startsWith K fence_json")
      case True
      then have len: "7 \<le> length K"
        using startsWith_length [of K fence_json] by (simp add: length_fence)
      have "startsWith (K @ ws2 @ fence) fence_json"
        using True by (rule startsWith_append)
      then have L: "replace_fences (K @ ws2 @ fence)
          = replace_fences (dropWhile is_ws (drop 7 K @ ws2 @ fence))"
        using len by (simp add: replace_fences_step [OF KSne])
      have R: "replace_fences K = replace_fences (dropWhile is_ws (drop 7 K))"
        using True by (simp add: replace_fences_step [OF Kne])
      show ?thesis
      proof (cases "list_all is_ws (drop 7 K)")
        case True
        with ws have "list_all is_ws (drop 7 K @ ws2)" by simp
        then have "dropWhile is_ws ((drop 7 K @ ws2) @ fence) = fence"
          using not_ws_fence_chars(1) by (simp add: list_all_iff fence_code)
        then have a: "replace_fences (K @ ws2 @ fence) = []"
          using L by (simp add: replace_fences_fence)
        from True have e: "dropWhile is_ws (drop 7 K) = []"
          by (simp add: list_all_iff)
        have "replace_fences K = []"
          unfolding R e by simp
        with a show ?thesis by (simp add: trimEnd_def)
      next
        case False
        define K3 where "K3 = dropWhile is_ws (drop 7 K)"
        from False have K3ne: "K3 \<noteq> []"
          by (simp add: K3_def list_all_iff)
        then have d7: "drop 7 K \<noteq> []" by (auto simp: K3_def)
        have "length K3 \<le> length (drop 7 K)"
          unfolding K3_def by (rule length_dropWhile_le)
        with Kne have short: "length K3 < length K" by (cases K) simp_all
        have "last K3 = last (drop 7 K)"
          using K3ne unfolding K3_def by (rule last_dropWhile_eq)
        also have "\<dots> = last K"
          using d7 by (simp add: last_drop)
        finally have "last K3 \<noteq> 96" using l by simp
        with short have "replace_fences (K3 @ ws2 @ fence) = trimEnd (replace_fences K3)"
          by (simp add: IH)
        moreover have "dropWhile is_ws (drop 7 K @ ws2 @ fence) = K3 @ ws2 @ fence"
          using False by (simp add: K3_def dropWhile_append_not_all)
        ultimately show ?thesis
          using L R by (simp add: K3_def)
      qed
    next
      case nj: False
      have njS: "\<not> startsWith (K @ ws2 @ fence) fence_json"
        using ws nj by (rule no_fence_json_across)
      show ?thesis
      proof (cases "startsWith K' fence")
        case True
        then have len: "3 \<le> length K'"
          using startsWith_length [of K' fence] by (simp add: length_fence)
        have "startsWith (K' @ ws2 @ fence) fence"
          using True by (rule startsWith_append)
        then have L: "replace_fences (K @ ws2 @ fence)
            = replace_fences (drop 3 K' @ ws2 @ fence)"
          using njS dK len by (simp add: replace_fences_step [OF KSne])
        have R: "replace_fences K = replace_fences (drop 3 K')"
          using nj True by (simp add: replace_fences_step [OF Kne] K'_def)
        have "length K' \<le> length K"
          unfolding K'_def by (rule length_dropWhile_le)
        with K'ne have short: "length (drop 3 K') < length K"
          by (cases K') simp_all
        have "drop 3 K' = [] \<or> last (drop 3 K') \<noteq> 96"
          using l lK' by (cases "drop 3 K' = []") (simp_all add: last_drop)
        with short have "replace_fences (drop 3 K' @ ws2 @ fence)
            = trimEnd (replace_fences (drop 3 K'))"
          by (simp add: IH)
        with L R show ?thesis by simp
      next
        case nf: False
        from l lK' have "last K' \<noteq> 96" by simp
        with K'ne have "\<not> startsWith (K' @ ws2 @ fence) fence"
          using nf by (rule no_fence_across)
        then have L: "replace_fences (K @ ws2 @ fence)
            = hd K # replace_fences (tl K @ ws2 @ fence)"
          using njS dK Kne by (simp add: replace_fences_step [OF KSne])
        have R: "replace_fences K = hd K # replace_fences (tl K)"
          using nj nf by (simp add: replace_fences_step [OF Kne] K'_def)
        have short: "length (tl K) < length K"
          using Kne by (cases K) simp_all
        have "tl K = [] \<or> last (tl K) \<noteq> 96"
          using l Kne by (cases K) (auto split: if_splits)
        with short have tail: "replace_fences (tl K @ ws2 @ fence)
            = trimEnd (replace_fences (tl K))"
          by (simp add: IH)
        have "\<not> list_all is_ws (hd K # replace_fences (tl K))"
        proof (cases "is_ws (hd K)")
          case True
          with Kne have d: "dropWhile is_ws (tl K) = K'"
            by (cases K) (simp_all add: K'_def)
          from True False Kne have "\<not> list_all is_ws (tl K)"
            by (cases K) simp_all
          moreover from nf d have "\<not> startsWith (dropWhile is_ws (tl K)) fence"
            by simp
          ultimately have "\<not> list_all is_ws (replace_fences (tl K))"
            by (rule replace_fences_not_all_ws)
          then show ?thesis by simp
        next
          case False
          then show ?thesis by simp
        qed
        then have "trimEnd (hd K # replace_fences (tl K))
            = hd K # trimEnd (replace_fences (tl K))"
          by (simp only: trimEnd_Cons if_False)
        with L R tail show ?thesis by simp
      qed
    qed
  qed
qed


lemma list_all_takeWhile: "list_all P (takeWhile P xs)"
  by (induction xs) simp_all

lemma trim_replace_fences_leading:
  assumes "case dropWhile is_ws s of [] \<Rightarrow> True | c # _ \<Rightarrow> c \<noteq> 96"
  shows "trim (replace_fences s) = trim (replace_fences (dropWhile is_ws s))"
proof -
  have "replace_fences s = takeWhile is_ws s @ replace_fences (dropWhile is_ws s)"
    using assms by (rule replace_fences_leading_ws)
  then show ?thesis
    by (simp add: trim_ws_append list_all_takeWhile)
qed

lemma cleaned_closing:
  assumes ws: "list_all is_ws ws2"
    and l: "A = [] \<or> last A \<noteq> 96"
    and f: "case dropWhile is_ws A of [] \<Rightarrow> True | c # _ \<Rightarrow> c \<noteq> 96"
  shows "trim (replace_fences (A @ ws2 @ fence)) = trim (replace_fences (dropWhile is_ws A))"
    and "trim (replace_fences (dropWhile is_ws (A @ ws2 @ fence)))
           = trim (replace_fences (dropWhile is_ws A))"
proof -
  have "replace_fences (A @ ws2 @ fence) = trimEnd (replace_fences A)"
    using ws l by (rule replace_fences_closing)
  then have "trim (replace_fences (A @ ws2 @ fence)) = trim (replace_fences A)"
    by (simp add: trim_trimEnd)
  also have "\<dots> = trim (replace_fences (dropWhile is_ws A))"
    using f by (rule trim_replace_fences_leading)
  finally show "trim (replace_fences (A @ ws2 @ fence))
      = trim (replace_fences (dropWhile is_ws A))" .
  show "trim (replace_fences (dropWhile is_ws (A @ ws2 @ fence)))
           = trim (replace_fences (dropWhile is_ws A))"
  proof (cases "list_all is_ws A")
    case True
    with ws have "list_all is_ws (A @ ws2)" by simp
    then have "dropWhile is_ws ((A @ ws2) @ fence) = fence"
      using not_ws_fence_chars(1) by (simp add: list_all_iff fence_code)
    then have a: "dropWhile is_ws (A @ ws2 @ fence) = fence" by simp
    from True have e: "dropWhile is_ws A = []"
      by (simp add: list_all_iff)
    show ?thesis
      unfolding a e by (simp add: replace_fences_fence)
  next
    case False
    define A' where "A' = dropWhile is_ws A"
    from False have ne: "A' \<noteq> []"
      by (simp add: A'_def list_all_iff)
    then have "A \<noteq> []" by (auto simp: A'_def)
    with l have "last A \<noteq> 96" by simp
    moreover have "last A' = last A"
      using ne unfolding A'_def by (rule last_dropWhile_eq)
    ultimately have "A' = [] \<or> last A' \<noteq> 96" by simp
    with ws have "replace_fences (A' @ ws2 @ fence) = trimEnd (replace_fences A')"
      by (rule replace_fences_closing)
    moreover have "dropWhile is_ws (A @ ws2 @ fence) = A' @ ws2 @ fence"
      using False by (simp add: A'_def dropWhile_append_not_all)
    ultimately show ?thesis
      by (simp add: trim_trimEnd A'_def)
  qed
qed

lemmas startsWith_code = startsWith_fence_iff [unfolded fence_code]

lemma fence_tag_json: "fence @ str ''json'' = fence_json"
  by (simp add: fence_def fence_json_def str_def)

text \<open>The opening marker with the tag: it goes, with the white space behind it.\<close>

lemma replace_fences_opening_json:
  "replace_fences (fence_json @ s) = replace_fences (dropWhile is_ws s)"
proof -
  have ne: "fence_json @ s \<noteq> []" by (simp add: fence_code)
  have "startsWith (fence_json @ s) fence_json"
    by (simp add: startsWith_def)
  moreover have "drop 7 (fence_json @ s) = s"
    by (simp add: fence_code)
  ultimately show ?thesis
    by (simp add: replace_fences_step [OF ne])
qed

text \<open>The opening marker without a tag, in front of anything but the letters of the tag.\<close>

lemma replace_fences_opening:
  assumes "case s of [] \<Rightarrow> True | c # _ \<Rightarrow> c \<noteq> 106"
  shows "replace_fences (fence @ s) = replace_fences s"
proof -
  have ne: "fence @ s \<noteq> []" by (simp add: fence_code)
  have "\<not> startsWith (fence @ s) fence_json"
    using assms by (cases s) (simp_all add: fence_code startsWith_code)
  moreover have "dropWhile is_ws (fence @ s) = fence @ s"
    using not_ws_fence_chars(1) by (simp add: fence_code)
  moreover have "startsWith (fence @ s) fence"
    by (simp add: startsWith_def)
  moreover have "drop 3 (fence @ s) = s"
    by (simp add: fence_code)
  ultimately show ?thesis
    by (simp add: replace_fences_step [OF ne])
qed

text \<open>
  C3. Let a payload be wrapped in a code fence: the opening marker, no tag or the tag
  \<open>json\<close>, any white space, the payload, any white space, the closing marker. When the
  payload has the ends of a JSON text (its first character that is not white space is
  neither a backquote nor the letter j, and it does not end with a backquote), cleaning
  the fenced text gives what cleaning the payload alone gives, so the normalizer returns
  the same record for both, or fails on both in the same way.
\<close>

theorem fenced_same_as_unfenced:
  "list_all is_ws ws1 \<and> list_all is_ws ws2 \<and> (tag = [] \<or> tag = str ''json'')
   \<and> payload_shaped payload \<longrightarrow>
     cleanedResponse (fenced tag ws1 payload ws2) = cleanedResponse payload
     \<and> normalize h w (fenced tag ws1 payload ws2) = normalize h w payload"
proof
  assume asm: "list_all is_ws ws1 \<and> list_all is_ws ws2 \<and> (tag = [] \<or> tag = str ''json'')
   \<and> payload_shaped payload"
  then have ws1: "list_all is_ws ws1" and ws2: "list_all is_ws ws2"
    and tag: "tag = [] \<or> tag = str ''json''" by simp_all
  from asm have first: "case dropWhile is_ws payload of [] \<Rightarrow> True | c # _ \<Rightarrow> c \<noteq> 96 \<and> c \<noteq> 106"
    and lastp: "payload = [] \<or> last payload \<noteq> 96"
    by (simp_all add: payload_shaped_def)
  define A where "A = ws1 @ payload"
  have dA: "dropWhile is_ws A = dropWhile is_ws payload"
    using ws1 by (simp add: A_def list_all_iff)
  have f96: "case dropWhile is_ws payload of [] \<Rightarrow> True | c # _ \<Rightarrow> c \<noteq> 96"
  proof (cases "dropWhile is_ws payload")
    case Nil
    show ?thesis unfolding Nil by simp
  next
    case (Cons c cs)
    from first have "c \<noteq> 96" unfolding Cons by simp
    then show ?thesis unfolding Cons by simp
  qed
  have fA: "case dropWhile is_ws A of [] \<Rightarrow> True | c # _ \<Rightarrow> c \<noteq> 96"
    using f96 by (simp only: dA)
  have lA: "A = [] \<or> last A \<noteq> 96"
  proof (cases "payload = []")
    case True
    show ?thesis
    proof (cases "ws1 = []")
      case True
      with \<open>payload = []\<close> show ?thesis by (simp add: A_def)
    next
      case False
      then have "last ws1 \<in> set ws1" by (rule last_in_set)
      with ws1 have "is_ws (last ws1)" by (simp add: list_all_iff)
      with \<open>payload = []\<close> show ?thesis
        using not_ws_fence_chars(1) by (auto simp: A_def)
    qed
  next
    case False
    with lastp show ?thesis by (simp add: A_def)
  qed
  have plain: "cleanedResponse payload = trim (replace_fences (dropWhile is_ws payload))"
    unfolding cleanedResponse_def using f96 by (rule trim_replace_fences_leading)
  have "cleanedResponse (fenced tag ws1 payload ws2)
      = trim (replace_fences (dropWhile is_ws A))"
  proof (cases "tag = []")
    case True
    have "case A @ ws2 @ fence of [] \<Rightarrow> True | c # _ \<Rightarrow> c \<noteq> 106"
    proof (cases ws1)
      case (Cons v vs)
      with ws1 have "is_ws v" by simp
      with Cons show ?thesis
        using not_ws_fence_chars(2) by (auto simp: A_def)
    next
      case Nil
      show ?thesis
      proof (cases payload)
        case (Cons c cs)
        with first have "c \<noteq> 106"
          using not_ws_fence_chars(2) by (cases "is_ws c") auto
        with Cons Nil show ?thesis by (simp add: A_def)
      next
        case pnil: Nil
        show ?thesis
        proof (cases ws2)
          case Nil
          with pnil \<open>ws1 = []\<close> show ?thesis by (simp add: A_def fence_code)
        next
          case (Cons v vs)
          with ws2 have "is_ws v" by simp
          with Cons pnil \<open>ws1 = []\<close> show ?thesis
            using not_ws_fence_chars(2) by (auto simp: A_def)
        qed
      qed
    qed
    then have "replace_fences (fence @ A @ ws2 @ fence) = replace_fences (A @ ws2 @ fence)"
      by (rule replace_fences_opening)
    moreover have "fenced tag ws1 payload ws2 = fence @ A @ ws2 @ fence"
      using True by (simp add: fenced_def A_def)
    ultimately show ?thesis
      using cleaned_closing(1) [OF ws2 lA fA] by (simp add: cleanedResponse_def)
  next
    case False
    with tag have "tag = str ''json''" by simp
    then have "fenced tag ws1 payload ws2 = (fence @ str ''json'') @ A @ ws2 @ fence"
      by (simp add: fenced_def A_def)
    then have "fenced tag ws1 payload ws2 = fence_json @ A @ ws2 @ fence"
      by (simp only: fence_tag_json)
    then have "replace_fences (fenced tag ws1 payload ws2)
        = replace_fences (dropWhile is_ws (A @ ws2 @ fence))"
      by (simp only: replace_fences_opening_json)
    then show ?thesis
      using cleaned_closing(2) [OF ws2 lA fA] by (simp add: cleanedResponse_def)
  qed
  with plain dA have same: "cleanedResponse (fenced tag ws1 payload ws2) = cleanedResponse payload"
    by simp
  then show "cleanedResponse (fenced tag ws1 payload ws2) = cleanedResponse payload
     \<and> normalize h w (fenced tag ws1 payload ws2) = normalize h w payload"
    by (simp add: normalize_def)
qed


theorem fenced_same_as_unfenced_witness:
  "list_all is_ws [10] \<and> payload_shaped (str ''{}'')
   \<and> fenced (str ''json'') [10] (str ''{}'') [10]
       = str ''```json'' @ [10] @ str ''{}'' @ [10] @ str ''```''
   \<and> cleanedResponse (fenced (str ''json'') [10] (str ''{}'') [10]) = str ''{}''
   \<and> cleanedResponse (fenced [] [10] (str ''{}'') [10]) = str ''{}''
   \<and> normalize example_host (str ''casa'') (fenced (str ''json'') [10] (str ''{}'') [10])
       = Inr (JObj [(str ''relatedEnglishWords'', JArr []),
                    (str ''sampleSentences'', JArr []),
                    (str ''confidence'', JStr (str ''medium'')),
                    (str ''languageFamily'', JStr (str ''Romance'')),
                    (str ''pronunciation'', JStr (str ''casa''))])"
proof -
  have ws: "list_all is_ws [10]"
    by (simp add: is_ws_def)
  have shaped: "payload_shaped (str ''{}'')"
    by (simp add: payload_shaped_def is_ws_def str_def)
  have wrapped: "fenced (str ''json'') [10] (str ''{}'') [10]
       = str ''```json'' @ [10] @ str ''{}'' @ [10] @ str ''```''"
    by (simp add: fenced_def fence_def str_def)
  have plain: "cleanedResponse (str ''{}'') = str ''{}''"
    by (simp add: cleanedResponse_def replace_fences.simps startsWith_def fence_def
        fence_json_def trim_def str_def is_ws_def)
  have result: "normalize example_host (str ''casa'') (str ''{}'')
       = Inr (JObj [(str ''relatedEnglishWords'', JArr []),
                    (str ''sampleSentences'', JArr []),
                    (str ''confidence'', JStr (str ''medium'')),
                    (str ''languageFamily'', JStr (str ''Romance'')),
                    (str ''pronunciation'', JStr (str ''casa''))])"
    by (simp add: normalize_def plain example_host_def example_parse_def)
      (simp add: safeAnalysis_def bind_exn_def or_js_def str_def)
  from fenced_same_as_unfenced
      [where ?ws1.0 = "[10]" and ?ws2.0 = "[10]" and tag = "str ''json''"
         and payload = "str ''{}''" and h = example_host and w = "str ''casa''"]
    ws shaped
  have tagged: "cleanedResponse (fenced (str ''json'') [10] (str ''{}'') [10])
        = cleanedResponse (str ''{}'')
      \<and> normalize example_host (str ''casa'') (fenced (str ''json'') [10] (str ''{}'') [10])
        = normalize example_host (str ''casa'') (str ''{}'')"
    by simp
  from fenced_same_as_unfenced
      [where ?ws1.0 = "[10]" and ?ws2.0 = "[10]" and tag = "[]"
         and payload = "str ''{}''" and h = example_host and w = "str ''casa''"]
    ws shaped
  have untagged: "cleanedResponse (fenced [] [10] (str ''{}'') [10])
        = cleanedResponse (str ''{}'')"
    by simp
  from ws shaped wrapped tagged untagged plain result show ?thesis
    by simp
qed


end
